theory Spec2Isabelle
  imports Complex_Main "HOL-Library.Word"
begin

section \<open>QString formatting used by the crash dialog\<close>

text \<open>
  The dialog (qrenderdoc/Windows/Dialogs/CrashDialog.cpp) builds every piece of text it
  shows with \<^verbatim>\<open>QString::arg\<close>: a template holds place markers \<^verbatim>\<open>%1\<close> ... \<^verbatim>\<open>%99\<close>, and
  one call of \<^verbatim>\<open>arg\<close> replaces every occurrence of the lowest-numbered marker by the
  argument. The localised marker \<^verbatim>\<open>%L1\<close> occurs in no template of the dialog and is
  not read as a marker here. A \<^verbatim>\<open>QString\<close> is modelled as a \<^typ>\<open>string\<close>;
  \<^verbatim>\<open>tr\<close> is the untranslated source text and \<^verbatim>\<open>toUtf8\<close> keeps the characters.
\<close>

type_synonym QString = string
type_synonym QByteArray = string

definition tr :: "QString \<Rightarrow> QString" where
  "tr s = s"

definition toUtf8 :: "QString \<Rightarrow> QByteArray" where
  "toUtf8 s = s"

definition fromUtf8 :: "QByteArray \<Rightarrow> QString" where
  "fromUtf8 b = b"

definition digitValue :: "char \<Rightarrow> nat option" where
  "digitValue c =
     (let n = (of_char c :: nat) in if 48 \<le> n \<and> n \<le> 57 then Some (n - 48) else None)"

text \<open>A template read as literal characters and place markers (number, source text).\<close>

datatype token = Lit char | Esc nat string

fun tokens :: "QString \<Rightarrow> token list" where
  "tokens [] = []"
| "tokens [c] = [Lit c]"
| "tokens (c # d # cs) =
     (if c = CHR ''%'' then
        (case digitValue d of
           None \<Rightarrow> Lit c # tokens (d # cs)
         | Some n \<Rightarrow>
             (case cs of
                [] \<Rightarrow> [Esc n [c, d]]
              | e # cs' \<Rightarrow>
                  (case digitValue e of
                     None \<Rightarrow> Esc n [c, d] # tokens cs
                   | Some m \<Rightarrow> Esc (10 * n + m) [c, d, e] # tokens cs')))
      else Lit c # tokens (d # cs))"

fun escape_numbers :: "token list \<Rightarrow> nat list" where
  "escape_numbers [] = []"
| "escape_numbers (Lit c # ts) = escape_numbers ts"
| "escape_numbers (Esc n s # ts) = n # escape_numbers ts"

fun render :: "nat \<Rightarrow> QString \<Rightarrow> token \<Rightarrow> QString" where
  "render lowest a (Lit c) = [c]"
| "render lowest a (Esc n s) = (if n = lowest then a else s)"

text \<open>\<^verbatim>\<open>QString::arg(const QString &a)\<close>: a template without a marker is returned as it is.\<close>

definition arg :: "QString \<Rightarrow> QString \<Rightarrow> QString" where
  "arg s a =
     (case escape_numbers (tokens s) of
        [] \<Rightarrow> s
      | n # ns \<Rightarrow> concat (map (render (fold min ns n) a) (tokens s)))"

text \<open>Decimal digits of an unsigned number, most significant first.\<close>

function toDecimal :: "nat \<Rightarrow> QString" where
  "toDecimal n =
     (if n < 10 then [char_of (48 + n)]
      else toDecimal (n div 10) @ [char_of (48 + n mod 10)])"
  by pat_completeness auto
termination
  by (relation "measure id") auto

declare toDecimal.simps [simp del]

definition rightJustified :: "nat \<Rightarrow> char \<Rightarrow> QString \<Rightarrow> QString" where
  "rightJustified width fill s = replicate (width - length s) fill @ s"

text \<open>
  \<^verbatim>\<open>QString::arg(qulonglong a, int fieldWidth, int base, QChar fillChar)\<close> for the
  base the dialog passes (10) and a field width that is not negative: the number is
  padded on the left with \<^verbatim>\<open>fillChar\<close> to at least \<^verbatim>\<open>fieldWidth\<close> characters.
\<close>

definition arg_ull :: "QString \<Rightarrow> 64 word \<Rightarrow> nat \<Rightarrow> char \<Rightarrow> QString" where
  "arg_ull s a fieldWidth fillChar = arg s (rightJustified fieldWidth fillChar (toDecimal (unat a)))"

section \<open>The remaining-time text of the upload progress\<close>

text \<open>
  Lines 362 to 378 of the \<^verbatim>\<open>uploadProgress\<close> handler: from the remaining seconds (a
  \<^verbatim>\<open>qulonglong\<close>) to the text shown after the transferred sizes.
\<close>

definition remainString :: "64 word \<Rightarrow> QString" where
  "remainString secondsRemaining0 =
     (let minutesRemaining = (secondsRemaining0 div 60) mod 60;
          hoursRemaining = secondsRemaining0 div 3600;
          secondsRemaining = secondsRemaining0 mod 60
      in if hoursRemaining > 0 then
           arg_ull (arg_ull (arg_ull ''%1:%2:%3'' hoursRemaining 2 (CHR ''0''))
                      minutesRemaining 2 (CHR ''0''))
             secondsRemaining 2 (CHR ''0'')
         else if minutesRemaining > 0 then
           arg_ull (arg_ull ''%1:%2'' minutesRemaining 2 (CHR ''0''))
             secondsRemaining 2 (CHR ''0'')
         else arg_ull (tr ''%1 seconds'') secondsRemaining 0 (CHR '' ''))"

text \<open>A number written with at least two digits, as the claim's \<^verbatim>\<open>MM\<close> and \<^verbatim>\<open>SS\<close>.\<close>

definition two_digits :: "nat \<Rightarrow> QString" where
  "two_digits n = (if n < 10 then CHR ''0'' # toDecimal n else toDecimal n)"

section \<open>Data of the dialog\<close>

datatype ReportStage = FillingDetails | Uploading | Reported

text \<open>
  The answer of \<^verbatim>\<open>RDDialog::question\<close>: the handlers only compare it with
  \<^verbatim>\<open>QMessageBox::Yes\<close>; \<open>NoButton\<close> stands for a box dismissed without an answer.
\<close>

datatype StandardButton = Yes | No | NoButton

datatype DialogCode = Rejected | Accepted

text \<open>A default-constructed \<^verbatim>\<open>QDateTime\<close>, or a reading of \<^verbatim>\<open>currentDateTimeUtc\<close>.\<close>

datatype QDateTime = NullDateTime | UtcMSecs int

text \<open>A \<^verbatim>\<open>QVariant\<close> is seen through the two conversions the dialog applies to it.\<close>

record QVariant =
  toString :: QString
  toUInt :: "32 word"

definition invalidQVariant :: QVariant where
  "invalidQVariant = \<lparr>toString = [], toUInt = 0\<rparr>"

text \<open>
  A \<^verbatim>\<open>QVariantMap\<close> (\<^verbatim>\<open>QMap<QString, QVariant>\<close>) as its entries in the order
  \<^verbatim>\<open>keys()\<close> lists them. \<open>valueOf\<close> is \<^verbatim>\<open>operator[]\<close>, which yields a
  default-constructed value for a key that is absent.
\<close>

type_synonym QVariantMap = "(QString \<times> QVariant) list"

definition keys :: "QVariantMap \<Rightarrow> QString list" where
  "keys m = map fst m"

definition valueOf :: "QVariantMap \<Rightarrow> QString \<Rightarrow> QVariant" where
  "valueOf m k = (case map_of m k of None \<Rightarrow> invalidQVariant | Some v \<Rightarrow> v)"

definition removeKey :: "QString \<Rightarrow> QVariantMap \<Rightarrow> QVariantMap" where
  "removeKey k m = filter (\<lambda>kv. fst kv \<noteq> k) m"

record Thumbnail =
  data :: QByteArray
  width :: "32 word"
  height :: "32 word"

text \<open>The two \<^verbatim>\<open>FileType\<close> values and the one \<^verbatim>\<open>ReplayStatus\<close> the dialog names.\<close>

datatype FileType = JPG | Raw

datatype ReplayStatus = Succeeded | OtherStatus nat

record BugReport =
  ID :: QString
  SubmitDate :: QDateTime
  CheckDate :: QDateTime

definition newBugReport :: BugReport where
  "newBugReport = \<lparr>ID = [], SubmitDate = NullDateTime, CheckDate = NullDateTime\<rparr>"

text \<open>
  Modelled from the spec: \<^verbatim>\<open>BugReport::URL()\<close> is declared outside this file; the
  spec has it build the URL "by template-substituting the ID into a fixed URL pattern".
\<close>

definition URL :: "QString \<Rightarrow> BugReport \<Rightarrow> QString" where
  "URL pattern bug = arg pattern (ID bug)"

text \<open>
  Modelled from the spec: the list type of \<^verbatim>\<open>CrashReport_ReportedBugs\<close> is declared
  outside this file; \<^verbatim>\<open>erase(0)\<close> is the eviction of "the oldest (index 0) record",
  \<^verbatim>\<open>push_back\<close> appends and \<^verbatim>\<open>count()\<close> is the number of entries.
\<close>

definition push_back :: "'a \<Rightarrow> 'a list \<Rightarrow> 'a list" where
  "push_back x xs = xs @ [x]"

definition erase :: "nat \<Rightarrow> 'a list \<Rightarrow> 'a list" where
  "erase offs xs = (if offs < length xs then take offs xs @ drop (Suc offs) xs else xs)"

definition count :: "'a list \<Rightarrow> int" where
  "count xs = int (length xs)"

record PersistantConfig =
  CrashReport_LastOpenedCapture :: QString
  CrashReport_ShouldRememberEmail :: bool
  CrashReport_EmailAddress :: QString
  CrashReport_EmailNagged :: bool
  CrashReport_ReportedBugs :: "BugReport list"

text \<open>The widgets of \<^verbatim>\<open>Ui::CrashDialog\<close>, each with the properties the dialog touches.\<close>

record Ui =
  reportGroup_visible :: bool
  uploadingGroup_visible :: bool
  reportedGroup_visible :: bool
  captureLabel_visible :: bool
  captureUpload_visible :: bool
  captureUpload_checked :: bool
  captureFilename_visible :: bool
  captureFilename_text :: QString
  capturePreviewFrame_visible :: bool
  capturePreview_pixmap :: "Thumbnail option"
  capturePreview_preserveAspectRatio :: bool
  rememberEmail_checked :: bool
  email_text :: QString
  email_focus :: bool
  description_text :: QString
  reportText_text :: QString
  progressBar_maximum :: int
  progressBar_value :: int
  progressText_text :: QString
  uploadRetry_enabled :: bool
  finishedText_text :: QString
  checkUpdates_checked :: bool

text \<open>
  One part of the multipart body: the two headers \<^verbatim>\<open>setHeader\<close> can set and the body,
  given as bytes (\<^verbatim>\<open>setBody\<close>) or as a file opened for reading (\<^verbatim>\<open>setBodyDevice\<close>).
\<close>

datatype PartBody = Body QByteArray | BodyDevice QString

record QHttpPart =
  ContentTypeHeader :: "QString option"
  ContentDispositionHeader :: "QString option"
  body :: PartBody

definition newQHttpPart :: QHttpPart where
  "newQHttpPart = \<lparr>ContentTypeHeader = None, ContentDispositionHeader = None, body = Body []\<rparr>"

text \<open>
  The reply object of a posted request: where it was posted, the body, and whether the
  request is still in flight (it is until its \<^verbatim>\<open>finished\<close> signal).
\<close>

record QNetworkReply =
  url :: QString
  multiPart :: "QHttpPart list"
  isRunning :: bool

text \<open>
  What the dialog reads from outside: the build-time macro \<^verbatim>\<open>BUGREPORT_URL\<close>, the
  pattern of \<^verbatim>\<open>BugReport::URL()\<close>, the file system (\<^verbatim>\<open>QFileInfo\<close>, \<^verbatim>\<open>QUrl\<close>)
  and the capture-file reader (\<^verbatim>\<open>ICaptureFile\<close>). \<open>isNull\<close> tells whether the image
  built from a raw thumbnail is null.
\<close>

record Env =
  BUGREPORT_URL :: QString
  URL_pattern :: QString
  file_exists :: "QString \<Rightarrow> bool"
  fileName :: "QString \<Rightarrow> QString"
  absoluteFilePath :: "QString \<Rightarrow> QString"
  fromLocalFile :: "QString \<Rightarrow> QString"
  OpenFile :: "QString \<Rightarrow> ReplayStatus"
  GetThumbnail :: "QString \<Rightarrow> FileType \<Rightarrow> nat \<Rightarrow> Thumbnail"
  isNull :: "Thumbnail \<Rightarrow> bool"

text \<open>
  The members of \<^verbatim>\<open>CrashDialog\<close>. \<open>m_Config\<close> is the configuration the dialog holds
  by reference, \<open>saved\<close> lists what each \<^verbatim>\<open>m_Config.Save()\<close> wrote (latest last), and
  \<open>result\<close> is \<open>None\<close> while the dialog is open. A deleted or null \<^verbatim>\<open>m_Request\<close> and
  a null \<^verbatim>\<open>m_Thumbnail\<close> are \<open>None\<close>.
\<close>

record CrashDialog =
  ui :: Ui
  m_Config :: PersistantConfig
  saved :: "PersistantConfig list"
  m_Stage :: ReportStage
  m_ReportPath :: QString
  m_ReportMetadata :: QVariantMap
  m_CaptureFilename :: QString
  m_Thumbnail :: "Thumbnail option"
  m_ReportID :: QString
  m_Request :: "QNetworkReply option"
  result :: "DialogCode option"

definition Save :: "CrashDialog \<Rightarrow> CrashDialog" where
  "Save d = d\<lparr>saved := saved d @ [m_Config d]\<rparr>"

definition reject :: "CrashDialog \<Rightarrow> CrashDialog" where
  "reject d = d\<lparr>result := Some Rejected\<rparr>"

definition accept :: "CrashDialog \<Rightarrow> CrashDialog" where
  "accept d = d\<lparr>result := Some Accepted\<rparr>"

section \<open>Stages and construction\<close>

definition setStage :: "ReportStage \<Rightarrow> CrashDialog \<Rightarrow> CrashDialog" where
  "setStage stage d =
     (let d = d\<lparr>m_Stage := stage\<rparr> in
      case stage of
        FillingDetails \<Rightarrow>
          d\<lparr>ui := (ui d)\<lparr>reportGroup_visible := True, uploadingGroup_visible := False,
                          reportedGroup_visible := False\<rparr>\<rparr>
      | Uploading \<Rightarrow>
          d\<lparr>ui := (ui d)\<lparr>reportGroup_visible := False, uploadingGroup_visible := True,
                          reportedGroup_visible := False\<rparr>\<rparr>
      | Reported \<Rightarrow>
          d\<lparr>ui := (ui d)\<lparr>reportGroup_visible := False, uploadingGroup_visible := False,
                          reportedGroup_visible := True\<rparr>\<rparr>)"

definition reportText :: "Env \<Rightarrow> QString \<Rightarrow> QString" where
  \<open>reportText E reportPath =
     tr (''<p>RenderDoc encountered a serious problem. Please take a moment to look over this '' @
         ''form and send it off so that RenderDoc can get better!</p>'') @
     arg (tr (''<p>The contents of the report can be found <a href="%1">in this zip</a> which '' @
              ''you can edit/censor if you wish.</p>''))
       (fromLocalFile E reportPath) @
     tr (''<p>More information about <a href="'' @ BUGREPORT_URL E @ ''">the bug '' @
         ''reporter</a> and <a href="'' @ BUGREPORT_URL E @ ''/privacy">privacy statement</a> '' @
         ''for submissions.'')\<close>

text \<open>
  The constructor, given the widgets as \<^verbatim>\<open>setupUi\<close> leaves them, the configuration
  and the report descriptor. Window flags and geometry are left out.
\<close>

definition CrashDialog_new :: "Env \<Rightarrow> Ui \<Rightarrow> PersistantConfig \<Rightarrow> QVariantMap \<Rightarrow> CrashDialog" where
  "CrashDialog_new E setupUi cfg crashReportJSON =
     (let d = \<lparr>ui = setupUi, m_Config = cfg, saved = [], m_Stage = FillingDetails,
               m_ReportPath = toString (valueOf crashReportJSON ''report''),
               m_ReportMetadata = crashReportJSON, m_CaptureFilename = [],
               m_Thumbnail = None, m_ReportID = [], m_Request = None, result = None\<rparr>;
          replayCrash = (toUInt (valueOf crashReportJSON ''replaycrash'') \<noteq> 0);
          d = d\<lparr>m_ReportMetadata := removeKey ''report'' (m_ReportMetadata d)\<rparr>;
          d = d\<lparr>m_ReportMetadata := removeKey ''replaycrash'' (m_ReportMetadata d)\<rparr>;
          d = setStage FillingDetails d;
          d = d\<lparr>m_CaptureFilename := CrashReport_LastOpenedCapture (m_Config d)\<rparr>;
          d = d\<lparr>ui := (ui d)\<lparr>rememberEmail_checked :=
                                 CrashReport_ShouldRememberEmail (m_Config d),
                               email_text := CrashReport_EmailAddress (m_Config d)\<rparr>\<rparr>;
          capInfo = m_CaptureFilename d;
          d = (if replayCrash \<and> file_exists E capInfo then
                 (let d = d\<lparr>ui := (ui d)\<lparr>captureFilename_text := fileName E capInfo,
                                           capturePreviewFrame_visible := False\<rparr>\<rparr>;
                      cap = absoluteFilePath E capInfo
                  in if OpenFile E cap = Succeeded then
                       (let thumb = GetThumbnail E cap Raw 320 in
                        if \<not> isNull E thumb then
                          d\<lparr>ui := (ui d)\<lparr>capturePreview_pixmap := Some thumb,
                                          capturePreview_preserveAspectRatio := True,
                                          capturePreviewFrame_visible := True\<rparr>,
                            m_Thumbnail := Some (GetThumbnail E cap JPG 0)\<rparr>
                        else d)
                     else d)
               else
                 d\<lparr>m_CaptureFilename := [],
                   ui := (ui d)\<lparr>captureLabel_visible := False, captureUpload_visible := False,
                                 captureFilename_visible := False,
                                 capturePreviewFrame_visible := False\<rparr>\<rparr>)
      in d\<lparr>ui := (ui d)\<lparr>reportText_text := reportText E (m_ReportPath d)\<rparr>\<rparr>)"


section \<open>Building and posting the report\<close>

text \<open>
  The body \<^verbatim>\<open>sendReport\<close> builds (lines 240 to 322): \<open>multiPart\<close> grows by one
  \<^verbatim>\<open>append\<close> at a time, first in the loop over the metadata keys.
\<close>

definition sendReport_multiPart :: "CrashDialog \<Rightarrow> QHttpPart list" where
  \<open>sendReport_multiPart d =
     (let multiPart =
            foldl (\<lambda>multiPart key.
                     (let param = newQHttpPart;
                          param = param\<lparr>ContentDispositionHeader :=
                                           Some (arg ''form-data; name="%1"'' key)\<rparr>;
                          param = param\<lparr>body :=
                                    Body (toUtf8 (toString (valueOf (m_ReportMetadata d) key)))\<rparr>
                      in multiPart @ [param]))
              [] (keys (m_ReportMetadata d));
          email = email_text (ui d);
          description = description_text (ui d);
          multiPart =
            (if email \<noteq> [] then
               (let param = newQHttpPart;
                    param = param\<lparr>ContentDispositionHeader := Some ''form-data; name="email"''\<rparr>;
                    param = param\<lparr>body := Body (toUtf8 email)\<rparr>
                in multiPart @ [param])
             else multiPart);
          multiPart =
            (if description \<noteq> [] then
               (let param = newQHttpPart;
                    param = param\<lparr>ContentDispositionHeader :=
                                     Some ''form-data; name="description"''\<rparr>;
                    param = param\<lparr>body := Body (toUtf8 description)\<rparr>
                in multiPart @ [param])
             else multiPart);
          multiPart =
            (if m_CaptureFilename d \<noteq> [] \<and> captureUpload_checked (ui d) then
               (let capture = newQHttpPart;
                    capture = capture\<lparr>ContentTypeHeader := Some ''application/x-renderdoc-capture''\<rparr>;
                    capture = capture\<lparr>ContentDispositionHeader :=
                                Some ''form-data; name="capture"; filename="capture.rdc"''\<rparr>;
                    capture = capture\<lparr>body := BodyDevice (m_CaptureFilename d)\<rparr>;
                    multiPart = multiPart @ [capture]
                in case m_Thumbnail d of
                     None \<Rightarrow> multiPart
                   | Some thumbnail \<Rightarrow>
                       (let capture = newQHttpPart;
                            thumb = data thumbnail;
                            capture = capture\<lparr>ContentTypeHeader := Some ''image/jpeg''\<rparr>;
                            capture = capture\<lparr>ContentDispositionHeader :=
                                        Some ''form-data; name="thumb"; filename="thumb.jpg"''\<rparr>;
                            capture = capture\<lparr>body := Body thumb\<rparr>
                        in multiPart @ [capture]))
             else multiPart);
          report = newQHttpPart;
          report = report\<lparr>ContentTypeHeader := Some ''application/zip''\<rparr>;
          report = report\<lparr>ContentDispositionHeader :=
                      Some ''form-data; name="report"; filename="report.zip"''\<rparr>;
          report = report\<lparr>body := BodyDevice (m_ReportPath d)\<rparr>
      in multiPart @ [report])\<close>

text \<open>
  \<^verbatim>\<open>sendReport\<close>: the old reply is deleted, the body is posted to \<^verbatim>\<open>BUGREPORT_URL\<close>,
  the progress widgets are reset and the timer restarts. The three handlers it connects
  to the reply are the definitions below; the time the restarted timer shows comes with
  each progress signal.
\<close>

definition sendReport :: "Env \<Rightarrow> CrashDialog \<Rightarrow> CrashDialog" where
  "sendReport E d =
     (let d = d\<lparr>m_Request := None\<rparr>;
          multiPart = sendReport_multiPart d;
          d = d\<lparr>m_Request :=
                  Some \<lparr>url = BUGREPORT_URL E, multiPart = multiPart, isRunning = True\<rparr>\<rparr>
      in d\<lparr>ui := (ui d)\<lparr>progressBar_maximum := 10000, progressBar_value := 0,
                          progressText_text :=
                            tr ''Uploading report...\<newline>Calculating time remaining''\<rparr>\<rparr>)"

text \<open>The handler of the reply's \<^verbatim>\<open>error\<close> signal, given \<^verbatim>\<open>m_Request->errorString()\<close>.\<close>

definition networkError :: "QString \<Rightarrow> CrashDialog \<Rightarrow> CrashDialog" where
  "networkError errorString d =
     d\<lparr>ui := (ui d)\<lparr>progressBar_value := 0,
                     progressText_text :=
                       arg (tr ''Network error uploading:\<newline>%1'') errorString,
                     uploadRetry_enabled := True\<rparr>\<rparr>"

text \<open>
  The arithmetic of \<^verbatim>\<open>double\<close> the progress handler uses, as operations on a type
  \<open>'d\<close> of doubles: conversion from \<^verbatim>\<open>qint64\<close>, the four literals, product,
  quotient, difference, comparison, the conversions to \<^verbatim>\<open>int\<close> and \<^verbatim>\<open>qulonglong\<close>,
  and the text \<^verbatim>\<open>arg(x, 0, 'f', 2)\<close> inserts.
\<close>

record 'd DoubleOps =
  of_qint64 :: "64 word \<Rightarrow> 'd"
  d_10000 :: 'd
  d_1000000 :: 'd
  d_1e_9 :: 'd
  d_1 :: 'd
  mul :: "'d \<Rightarrow> 'd \<Rightarrow> 'd"
  divide :: "'d \<Rightarrow> 'd \<Rightarrow> 'd"
  minus :: "'d \<Rightarrow> 'd \<Rightarrow> 'd"
  greater :: "'d \<Rightarrow> 'd \<Rightarrow> bool"
  to_int :: "'d \<Rightarrow> int"
  to_qulonglong :: "'d \<Rightarrow> 64 word"
  number_f2 :: "'d \<Rightarrow> QString"

text \<open>
  The handler of \<^verbatim>\<open>uploadProgress\<close>, given the signal's two \<^verbatim>\<open>qint64\<close> (\<^verbatim>\<open>sent\<close>
  and \<^verbatim>\<open>total\<close> in the source) and the reading of \<^verbatim>\<open>m_UploadTimer->nsecsElapsed()\<close>.
\<close>

definition uploadProgress ::
  "'d DoubleOps \<Rightarrow> 64 word \<Rightarrow> 64 word \<Rightarrow> 64 word \<Rightarrow> CrashDialog \<Rightarrow> CrashDialog" where
  "uploadProgress F bytesSent bytesTotal nsecsElapsed d =
     (if 0 <s bytesTotal \<and> bytesSent <s bytesTotal then
        (let d = d\<lparr>ui := (ui d)\<lparr>progressBar_value :=
                     to_int F (mul F (d_10000 F)
                       (divide F (of_qint64 F bytesSent) (of_qint64 F bytesTotal)))\<rparr>\<rparr>;
             sentMB = divide F (of_qint64 F bytesSent) (d_1000000 F);
             totalMB = divide F (of_qint64 F bytesTotal) (d_1000000 F);
             secondsElapsed = mul F (of_qint64 F nsecsElapsed) (d_1e_9 F);
             speedMBS = divide F sentMB secondsElapsed;
             secondsRemaining = to_qulonglong F (divide F (minus F totalMB sentMB) speedMBS)
         in if greater F secondsElapsed (d_1 F) then
              d\<lparr>ui := (ui d)\<lparr>progressText_text :=
                  arg (arg (arg (arg
                    (tr ''Uploading report...\<newline>%1 MB / %2 MB. %3 remaining (%4 MB/s)'')
                    (number_f2 F sentMB)) (number_f2 F totalMB)) (remainString secondsRemaining))
                    (number_f2 F speedMBS)\<rparr>\<rparr>
            else d)
      else d)"

text \<open>The handler of \<^verbatim>\<open>finished\<close>, given what \<^verbatim>\<open>m_Request->readAll()\<close> returns.\<close>

definition finished :: "Env \<Rightarrow> QByteArray \<Rightarrow> CrashDialog \<Rightarrow> CrashDialog" where
  \<open>finished E readAll d =
     (if uploadRetry_enabled (ui d) then d
      else
        (let text = tr ''<p>Your report has been uploaded, thank you for your help!</p>'';
             d = d\<lparr>m_ReportID := fromUtf8 readAll\<rparr>;
             text =
               (if m_ReportID d \<noteq> [] then
                  (let bug = newBugReport;
                       bug = bug\<lparr>ID := m_ReportID d\<rparr>;
                       url = URL (URL_pattern E) bug
                   in text @
                      arg (tr (''<p>The unique anonymous URL for your report is '' @
                               ''<a href="%1">%1</a>.</p>'')) url)
                else text);
             d = d\<lparr>ui := (ui d)\<lparr>finishedText_text := text\<rparr>\<rparr>
         in setStage Reported d))\<close>

section \<open>The handlers of the user's actions\<close>

text \<open>
  Lines 224 to 232: what \<^verbatim>\<open>on_send_clicked\<close> does once neither question has made
  it return.
\<close>

definition save_and_send :: "Env \<Rightarrow> CrashDialog \<Rightarrow> CrashDialog" where
  "save_and_send E d =
     (let d = d\<lparr>m_Config := (m_Config d)\<lparr>CrashReport_ShouldRememberEmail :=
                                             rememberEmail_checked (ui d)\<rparr>\<rparr>;
          d = (if rememberEmail_checked (ui d) \<and> email_text (ui d) \<noteq> [] then
                 d\<lparr>m_Config := (m_Config d)\<lparr>CrashReport_EmailAddress := email_text (ui d)\<rparr>\<rparr>
               else d);
          d = Save d;
          d = sendReport E d
      in setStage Uploading d)"

text \<open>
  \<^verbatim>\<open>on_send_clicked\<close>, given the answers to its two questions; a question that is not
  asked leaves its answer unread.
\<close>

definition on_send_clicked ::
  "Env \<Rightarrow> StandardButton \<Rightarrow> StandardButton \<Rightarrow> CrashDialog \<Rightarrow> CrashDialog" where
  "on_send_clicked E captureAnswer emailAnswer d =
     (if captureUpload_checked (ui d) \<and> captureAnswer \<noteq> Yes then
        d\<lparr>ui := (ui d)\<lparr>captureUpload_checked := False\<rparr>\<rparr>
      else if \<not> CrashReport_EmailNagged (m_Config d) \<and> email_text (ui d) = [] then
        (let d = d\<lparr>m_Config := (m_Config d)\<lparr>CrashReport_EmailNagged := True\<rparr>\<rparr>;
             d = Save d
         in if emailAnswer = Yes then d\<lparr>ui := (ui d)\<lparr>email_focus := True\<rparr>\<rparr>
            else save_and_send E d)
      else save_and_send E d)"

definition on_cancel_clicked :: "CrashDialog \<Rightarrow> CrashDialog" where
  "on_cancel_clicked d = reject d"

text \<open>
  \<^verbatim>\<open>QNetworkReply::abort\<close> on a request still in flight ends it and emits \<^verbatim>\<open>error\<close>
  and then \<^verbatim>\<open>finished\<close>, so both handlers run before \<^verbatim>\<open>abort\<close> returns; a request
  that has finished is left alone.
\<close>

definition abort :: "Env \<Rightarrow> CrashDialog \<Rightarrow> CrashDialog" where
  "abort E d =
     (case m_Request d of
        None \<Rightarrow> d
      | Some r \<Rightarrow>
          if isRunning r then
            finished E []
              (networkError ''Operation canceled'' (d\<lparr>m_Request := Some (r\<lparr>isRunning := False\<rparr>)\<rparr>))
          else d)"

definition on_uploadCancel_clicked :: "Env \<Rightarrow> StandardButton \<Rightarrow> CrashDialog \<Rightarrow> CrashDialog" where
  "on_uploadCancel_clicked E answer d =
     (if answer = Yes then
        (let d = abort E d;
             d = d\<lparr>m_Request := None\<rparr>
         in reject d)
      else d)"

definition on_uploadRetry_clicked :: "Env \<Rightarrow> CrashDialog \<Rightarrow> CrashDialog" where
  "on_uploadRetry_clicked E d =
     (let d = sendReport E d in d\<lparr>ui := (ui d)\<lparr>uploadRetry_enabled := False\<rparr>\<rparr>)"

text \<open>
  \<^verbatim>\<open>on_buttonBox_accepted\<close>, given the two readings of \<^verbatim>\<open>currentDateTimeUtc\<close>.
\<close>

definition on_buttonBox_accepted :: "QDateTime \<Rightarrow> QDateTime \<Rightarrow> CrashDialog \<Rightarrow> CrashDialog" where
  "on_buttonBox_accepted now1 now2 d =
     (let d =
            (if m_ReportID d \<noteq> [] \<and> checkUpdates_checked (ui d) then
               (let bug = newBugReport;
                    bug = bug\<lparr>ID := m_ReportID d\<rparr>;
                    bug = bug\<lparr>SubmitDate := now1\<rparr>;
                    bug = bug\<lparr>CheckDate := now2\<rparr>;
                    d = d\<lparr>m_Config := (m_Config d)\<lparr>CrashReport_ReportedBugs :=
                           push_back bug (CrashReport_ReportedBugs (m_Config d))\<rparr>\<rparr>;
                    d = (if count (CrashReport_ReportedBugs (m_Config d)) > 20 then
                           d\<lparr>m_Config := (m_Config d)\<lparr>CrashReport_ReportedBugs :=
                                  erase 0 (CrashReport_ReportedBugs (m_Config d))\<rparr>\<rparr>
                         else d)
                in Save d)
             else d)
      in accept d)"

section \<open>The dialog as a machine driven by events\<close>

text \<open>
  What can happen to an open dialog: the user edits a field or ticks a box, presses a
  button (the answers to the questions the handler asks come with the press), presses the
  Escape key or the close button of the window, or the reply of the request in flight
  emits a signal. \<^verbatim>\<open>QDialog\<close>, the base class, answers the Escape key and the close
  button with \<^verbatim>\<open>reject()\<close>; \<^verbatim>\<open>CrashDialog\<close> overrides neither the key handler nor
  the close handler nor \<^verbatim>\<open>reject()\<close> (its only overrides are \<^verbatim>\<open>showEvent\<close> and
  \<^verbatim>\<open>resizeEvent\<close>, and the window flags it clears are those of the context help
  button), so this request is open in every stage and asks nothing.
\<close>

datatype Event =
    EditEmail QString
  | EditDescription QString
  | SetRememberEmail bool
  | SetCaptureUpload bool
  | SetCheckUpdates bool
  | SendClicked StandardButton StandardButton
  | CancelClicked
  | UploadCancelClicked StandardButton
  | UploadRetryClicked
  | ButtonBoxAccepted QDateTime QDateTime
  | CloseRequested
  | ReplyError QString
  | ReplyUploadProgress "64 word" "64 word" "64 word"
  | ReplyFinished QByteArray

text \<open>
  Modelled from the spec: the form that places the widgets is not in this file. The spec
  has "three mutually-exclusive visible panel groups corresponding to the three stages"
  and "\<^verbatim>\<open>FillingDetails\<close> cancel rejects immediately with no confirmation; \<^verbatim>\<open>Uploading\<close>
  cancel requires yes/no confirmation": the details, the send and the cancel button belong
  to the report group, the retry and the cancel-upload button to the uploading group, the
  check-for-updates box and the button box to the reported group. A widget takes input
  only while its group is shown, it is shown and enabled itself, and the dialog is open.
  A reply emits signals while its request is in flight.
\<close>

fun enabled :: "Event \<Rightarrow> CrashDialog \<Rightarrow> bool" where
  "enabled (EditEmail s) d = (result d = None \<and> reportGroup_visible (ui d))"
| "enabled (EditDescription s) d = (result d = None \<and> reportGroup_visible (ui d))"
| "enabled (SetRememberEmail b) d = (result d = None \<and> reportGroup_visible (ui d))"
| "enabled (SetCaptureUpload b) d =
     (result d = None \<and> reportGroup_visible (ui d) \<and> captureUpload_visible (ui d))"
| "enabled (SetCheckUpdates b) d = (result d = None \<and> reportedGroup_visible (ui d))"
| "enabled (SendClicked a b) d = (result d = None \<and> reportGroup_visible (ui d))"
| "enabled CancelClicked d = (result d = None \<and> reportGroup_visible (ui d))"
| "enabled (UploadCancelClicked a) d = (result d = None \<and> uploadingGroup_visible (ui d))"
| "enabled UploadRetryClicked d =
     (result d = None \<and> uploadingGroup_visible (ui d) \<and> uploadRetry_enabled (ui d))"
| "enabled (ButtonBoxAccepted t1 t2) d = (result d = None \<and> reportedGroup_visible (ui d))"
| "enabled CloseRequested d = (result d = None)"
| "enabled (ReplyError s) d = (case m_Request d of None \<Rightarrow> False | Some r \<Rightarrow> isRunning r)"
| "enabled (ReplyUploadProgress bytesSent bytesTotal nsecs) d =
     (case m_Request d of None \<Rightarrow> False | Some r \<Rightarrow> isRunning r)"
| "enabled (ReplyFinished bytes) d =
     (case m_Request d of None \<Rightarrow> False | Some r \<Rightarrow> isRunning r)"

fun dispatch :: "'d DoubleOps \<Rightarrow> Env \<Rightarrow> Event \<Rightarrow> CrashDialog \<Rightarrow> CrashDialog" where
  "dispatch F E (EditEmail s) d = d\<lparr>ui := (ui d)\<lparr>email_text := s\<rparr>\<rparr>"
| "dispatch F E (EditDescription s) d = d\<lparr>ui := (ui d)\<lparr>description_text := s\<rparr>\<rparr>"
| "dispatch F E (SetRememberEmail b) d = d\<lparr>ui := (ui d)\<lparr>rememberEmail_checked := b\<rparr>\<rparr>"
| "dispatch F E (SetCaptureUpload b) d = d\<lparr>ui := (ui d)\<lparr>captureUpload_checked := b\<rparr>\<rparr>"
| "dispatch F E (SetCheckUpdates b) d = d\<lparr>ui := (ui d)\<lparr>checkUpdates_checked := b\<rparr>\<rparr>"
| "dispatch F E (SendClicked a b) d = on_send_clicked E a b d"
| "dispatch F E CancelClicked d = on_cancel_clicked d"
| "dispatch F E (UploadCancelClicked a) d = on_uploadCancel_clicked E a d"
| "dispatch F E UploadRetryClicked d = on_uploadRetry_clicked E d"
| "dispatch F E (ButtonBoxAccepted t1 t2) d = on_buttonBox_accepted t1 t2 d"
| "dispatch F E CloseRequested d = reject d"
| "dispatch F E (ReplyError s) d = networkError s d"
| "dispatch F E (ReplyUploadProgress bytesSent bytesTotal nsecs) d =
     uploadProgress F bytesSent bytesTotal nsecs d"
| "dispatch F E (ReplyFinished bytes) d =
     finished E bytes (d\<lparr>m_Request := map_option (\<lambda>r. r\<lparr>isRunning := False\<rparr>) (m_Request d)\<rparr>)"

definition fire :: "'d DoubleOps \<Rightarrow> Env \<Rightarrow> Event \<Rightarrow> CrashDialog \<Rightarrow> CrashDialog option" where
  "fire F E ev d = (if enabled ev d then Some (dispatch F E ev d) else None)"

text \<open>
  What the claim about the stages allows one event to do: the stage stays, or moves one
  step forward.
\<close>

definition stage_step :: "ReportStage \<Rightarrow> ReportStage \<Rightarrow> bool" where
  "stage_step a b =
     (b = a \<or> (a = FillingDetails \<and> b = Uploading) \<or> (a = Uploading \<and> b = Reported))"

text \<open>
  An event that closes a dialog which was open in the uploading stage is the
  cancel-upload button answered with yes, or the Escape key or close button of the
  window.
\<close>

definition close_confirmed :: "Event \<Rightarrow> CrashDialog \<Rightarrow> CrashDialog \<Rightarrow> bool" where
  "close_confirmed ev d d' =
     (if m_Stage d = Uploading \<and> result d = None \<and> result d' \<noteq> None
      then ev = UploadCancelClicked Yes \<or> ev = CloseRequested else True)"

text \<open>
  The states a sequence of events visits, the first one included; an event that cannot
  happen in the state it meets is passed over.
\<close>

fun run :: "'d DoubleOps \<Rightarrow> Env \<Rightarrow> CrashDialog \<Rightarrow> Event list \<Rightarrow> CrashDialog list" where
  "run F E d [] = [d]"
| "run F E d (ev # evs) =
     d # run F E (case fire F E ev d of None \<Rightarrow> d | Some d' \<Rightarrow> d') evs"


text \<open>
  What holds of the panels and the request in every state the machine reaches: the group
  shown is the one of the stage, and no request exists while the details are filled in.
\<close>

definition stage_inv :: "CrashDialog \<Rightarrow> bool" where
  "stage_inv d =
     (reportGroup_visible (ui d) = (m_Stage d = FillingDetails) \<and>
      uploadingGroup_visible (ui d) = (m_Stage d = Uploading) \<and>
      reportedGroup_visible (ui d) = (m_Stage d = Reported) \<and>
      (m_Stage d = FillingDetails \<longrightarrow> m_Request d = None))"

section \<open>The parts of the body, as the upload contract lists them\<close>

definition form_part :: "QString \<Rightarrow> QByteArray \<Rightarrow> QHttpPart" where
  \<open>form_part name bytes =
     \<lparr>ContentTypeHeader = None,
      ContentDispositionHeader = Some (''form-data; name="'' @ name @ ''"''),
      body = Body bytes\<rparr>\<close>

definition file_part :: "QString \<Rightarrow> QString \<Rightarrow> QString \<Rightarrow> PartBody \<Rightarrow> QHttpPart" where
  \<open>file_part contentType name filename content =
     \<lparr>ContentTypeHeader = Some contentType,
      ContentDispositionHeader =
        Some (''form-data; name="'' @ name @ ''"; filename="'' @ filename @ ''"''),
      body = content\<rparr>\<close>

section \<open>The arithmetic of doubles\<close>

text \<open>
  A \<^verbatim>\<open>double\<close> is an IEEE-754 binary64 number: a finite value, which is a rational with a
  53-bit significand (the positive zero is \<open>Finite 0\<close>), the negative zero, an infinity or
  a NaN.
\<close>

datatype double = Finite rat | NegZero | PosInf | NegInf | NaN

text \<open>
  The binary exponent of a positive rational: how often it is halved until it is below 2,
  or doubled until it is at least 1.
\<close>

function halvings :: "rat \<Rightarrow> nat" where
  "halvings x = (if x < 2 then 0 else Suc (halvings (x / 2)))"
  by pat_completeness auto
termination
proof (relation "measure (\<lambda>x. nat \<lfloor>x\<rfloor>)")
  show "wf (measure (\<lambda>x. nat \<lfloor>x\<rfloor>))" by simp
next
  fix x :: rat
  assume "\<not> x < 2"
  then have "\<lfloor>x / 2\<rfloor> < \<lfloor>x\<rfloor>" "0 < \<lfloor>x\<rfloor>" by linarith+
  then show "(x / 2, x) \<in> measure (\<lambda>x. nat \<lfloor>x\<rfloor>)" by simp
qed

function doublings :: "rat \<Rightarrow> nat" where
  "doublings x = (if x \<le> 0 \<or> 1 \<le> x then 0 else Suc (doublings (2 * x)))"
  by pat_completeness auto
termination
proof (relation "measure (\<lambda>x. nat \<lfloor>1 / x\<rfloor>)")
  show "wf (measure (\<lambda>x. nat \<lfloor>1 / x\<rfloor>))" by simp
next
  fix x :: rat
  assume "\<not> (x \<le> 0 \<or> 1 \<le> x)"
  then have x: "0 < x" "x < 1" by simp_all
  then have "1 < 1 / x" by simp
  moreover have "\<lfloor>y / 2\<rfloor> < \<lfloor>y\<rfloor> \<and> 0 < \<lfloor>y\<rfloor>" if "1 < y" for y :: rat
  proof -
    have p: "1 \<le> \<lfloor>y\<rfloor>" using that by (simp add: le_floor_iff)
    then have "(1 :: rat) \<le> of_int \<lfloor>y\<rfloor>" by (metis of_int_1 of_int_le_iff)
    moreover have "y < of_int \<lfloor>y\<rfloor> + 1" using floor_correct [of y] by simp
    ultimately have "y / 2 < of_int \<lfloor>y\<rfloor>" by linarith
    then have "\<lfloor>y / 2\<rfloor> < \<lfloor>y\<rfloor>" by (simp add: floor_less_iff)
    then show ?thesis using p by simp
  qed
  ultimately have "\<lfloor>1 / x / 2\<rfloor> < \<lfloor>1 / x\<rfloor>" "0 < \<lfloor>1 / x\<rfloor>" by blast+
  then show "(2 * x, x) \<in> measure (\<lambda>x. nat \<lfloor>1 / x\<rfloor>)"
    by (simp add: mult.commute)
qed

declare halvings.simps [simp del] doublings.simps [simp del]

definition floor_log2 :: "rat \<Rightarrow> int" where
  "floor_log2 x = (if 1 \<le> x then int (halvings x) else - int (doublings x))"

text \<open>
  Rounding to the nearest double, ties to the even significand: the spacing of the doubles
  around \<open>x\<close> is \<open>2 powi k\<close>, with \<open>k\<close> the exponent of \<open>x\<close> less 52, and that of the
  subnormal numbers below \<open>2 powi (- 1022)\<close>. What rounds to \<open>2 ^ 1024\<close> or beyond is an
  infinity; a negative number that rounds to zero is the negative zero.
\<close>

definition round_to_even :: "rat \<Rightarrow> int" where
  "round_to_even r =
     (let f = \<lfloor>r\<rfloor>; d = r - of_int f
      in if d < 1 / 2 then f else if 1 / 2 < d then f + 1 else if even f then f else f + 1)"

definition round53 :: "rat \<Rightarrow> rat" where
  "round53 x =
     (if x = 0 then 0
      else (let k = max (floor_log2 \<bar>x\<bar>) (- 1022) - 52
            in of_int (round_to_even (x / 2 powi k)) * 2 powi k))"

definition fl :: "rat \<Rightarrow> double" where
  "fl x =
     (let y = round53 x
      in if 2 ^ 1024 \<le> y then PosInf
         else if y \<le> - (2 ^ 1024) then NegInf
         else if y = 0 \<and> x < 0 then NegZero
         else Finite y)"

fun signbit :: "double \<Rightarrow> bool" where
  "signbit (Finite x) = (x < 0)"
| "signbit NegZero = True"
| "signbit PosInf = False"
| "signbit NegInf = True"
| "signbit NaN = False"

fun isinf :: "double \<Rightarrow> bool" where
  "isinf PosInf = True"
| "isinf NegInf = True"
| "isinf d = False"

fun iszero :: "double \<Rightarrow> bool" where
  "iszero (Finite x) = (x = 0)"
| "iszero NegZero = True"
| "iszero d = False"

fun rat_of :: "double \<Rightarrow> rat" where
  "rat_of (Finite x) = x"
| "rat_of d = 0"

definition signed_zero :: "bool \<Rightarrow> double" where
  "signed_zero negative = (if negative then NegZero else Finite 0)"

definition signed_inf :: "bool \<Rightarrow> double" where
  "signed_inf negative = (if negative then NegInf else PosInf)"

text \<open>
  Product, quotient, difference and the comparison \<^verbatim>\<open>>\<close> of two doubles: the special
  values as IEEE-754 has them, otherwise the exact result rounded once.
\<close>

definition double_mul :: "double \<Rightarrow> double \<Rightarrow> double" where
  "double_mul a b =
     (if a = NaN \<or> b = NaN then NaN
      else (let negative = (signbit a \<noteq> signbit b)
            in if isinf a \<or> isinf b then
                 (if iszero a \<or> iszero b then NaN else signed_inf negative)
               else if iszero a \<or> iszero b then signed_zero negative
               else fl (rat_of a * rat_of b)))"

definition double_div :: "double \<Rightarrow> double \<Rightarrow> double" where
  "double_div a b =
     (if a = NaN \<or> b = NaN then NaN
      else (let negative = (signbit a \<noteq> signbit b)
            in if isinf a then (if isinf b then NaN else signed_inf negative)
               else if isinf b then signed_zero negative
               else if iszero b then (if iszero a then NaN else signed_inf negative)
               else if iszero a then signed_zero negative
               else fl (rat_of a / rat_of b)))"

definition double_sub :: "double \<Rightarrow> double \<Rightarrow> double" where
  "double_sub a b =
     (if a = NaN \<or> b = NaN then NaN
      else if isinf a then (if isinf b \<and> signbit a = signbit b then NaN else a)
      else if isinf b then signed_inf (\<not> signbit b)
      else if iszero a \<and> iszero b then signed_zero (signbit a \<and> \<not> signbit b)
      else if rat_of a = rat_of b then Finite 0
      else fl (rat_of a - rat_of b))"

definition double_gt :: "double \<Rightarrow> double \<Rightarrow> bool" where
  "double_gt a b =
     (if a = NaN \<or> b = NaN then False
      else if isinf a then (a = PosInf \<and> b \<noteq> PosInf)
      else if isinf b then b = NegInf
      else rat_of b < rat_of a)"

text \<open>
  The conversions \<^verbatim>\<open>int(x)\<close> and \<^verbatim>\<open>qulonglong(x)\<close> drop the fraction; C++ defines them
  only where the truncated value fits the target type (32 bits signed, 64 bits unsigned),
  and \<open>None\<close> is the undefined case.
\<close>

definition trunc :: "rat \<Rightarrow> int" where
  "trunc x = (if x < 0 then - \<lfloor>- x\<rfloor> else \<lfloor>x\<rfloor>)"

definition double_to_int :: "double \<Rightarrow> int option" where
  "double_to_int a =
     (if a = NaN \<or> isinf a then None
      else (let i = trunc (rat_of a)
            in if - (2 ^ 31) \<le> i \<and> i < 2 ^ 31 then Some i else None))"

definition double_to_qulonglong :: "double \<Rightarrow> 64 word option" where
  "double_to_qulonglong a =
     (if a = NaN \<or> isinf a then None
      else (let i = trunc (rat_of a)
            in if 0 \<le> i \<and> i < 2 ^ 64 then Some (word_of_int i) else None))"

text \<open>
  The operations of the progress handler over these doubles. Three things the language
  and the source leave open are parameters: the text \<^verbatim>\<open>arg(x, 0, 'f', 2)\<close> writes for a
  double, and the values the platform gives the two conversions where C++ leaves them
  undefined.
\<close>

definition ieee_double ::
  "(double \<Rightarrow> QString) \<Rightarrow> (double \<Rightarrow> 32 word) \<Rightarrow> (double \<Rightarrow> 64 word) \<Rightarrow> double DoubleOps" where
  "ieee_double arg_fixed int_undefined qulonglong_undefined =
     \<lparr>of_qint64 = (\<lambda>w. fl (of_int (sint w))),
      d_10000 = fl 10000, d_1000000 = fl 1000000, d_1e_9 = fl (1 / 10 ^ 9), d_1 = fl 1,
      mul = double_mul, divide = double_div, minus = double_sub, greater = double_gt,
      to_int = (\<lambda>x. case double_to_int x of None \<Rightarrow> sint (int_undefined x) | Some i \<Rightarrow> i),
      to_qulonglong =
        (\<lambda>x. case double_to_qulonglong x of None \<Rightarrow> qulonglong_undefined x | Some w \<Rightarrow> w),
      number_f2 = arg_fixed\<rparr>"

text \<open>
  A double written with two decimals, the nearest such decimal to its value
  and a tie rounded away from zero.
\<close>

definition fixed2 :: "double \<Rightarrow> QString" where
  "fixed2 a =
     (if a = NaN then ''nan''
      else if isinf a then (if signbit a then ''-inf'' else ''inf'')
      else (let c = nat \<lfloor>\<bar>rat_of a\<bar> * 100 + 1 / 2\<rfloor>
            in (if signbit a then ''-'' else []) @ toDecimal (c div 100) @ ''.'' @
               two_digits (c mod 100)))"

text \<open>A positive rational between two powers of two.\<close>

definition binade_range :: "int \<Rightarrow> int \<Rightarrow> rat \<Rightarrow> bool" where
  "binade_range a b x = (2 powi a \<le> x \<and> x \<le> 2 powi b)"

section \<open>A concrete dialog\<close>

text \<open>
  Inputs on which the definitions are run: an environment with one capture on disk, the
  widgets as a form would leave them, a configuration, a report descriptor, and the
  doubles with two-decimal texts and 0 for an undefined conversion.
\<close>

definition example_double :: "double DoubleOps" where
  "example_double = ieee_double fixed2 (\<lambda>x. 0) (\<lambda>x. 0)"

text \<open>
  Only a progress signal reaches the arithmetic, so the evaluation of a run keeps
  \<open>example_double\<close> folded; the facts about the progress handler unfold it.
\<close>

declare example_double_def [code del]

definition example_env :: Env where
  "example_env =
     \<lparr>BUGREPORT_URL = ''https://example.org/bugreporter'',
      URL_pattern = ''https://example.org/bugreporter/report/%1'',
      file_exists = (\<lambda>p. p = ''/captures/last.rdc''),
      fileName = (\<lambda>p. ''last.rdc''),
      absoluteFilePath = (\<lambda>p. p),
      fromLocalFile = (\<lambda>p. ''file://'' @ p),
      OpenFile = (\<lambda>p. Succeeded),
      GetThumbnail = (\<lambda>p t n. \<lparr>data = ''thumb'', width = 4, height = 3\<rparr>),
      isNull = (\<lambda>t. False)\<rparr>"

definition example_setupUi :: Ui where
  "example_setupUi =
     \<lparr>reportGroup_visible = True, uploadingGroup_visible = True, reportedGroup_visible = True,
      captureLabel_visible = True, captureUpload_visible = True, captureUpload_checked = False,
      captureFilename_visible = True, captureFilename_text = [],
      capturePreviewFrame_visible = True, capturePreview_pixmap = None,
      capturePreview_preserveAspectRatio = False, rememberEmail_checked = False,
      email_text = [], email_focus = False, description_text = [], reportText_text = [],
      progressBar_maximum = 100, progressBar_value = 0, progressText_text = [],
      uploadRetry_enabled = False, finishedText_text = [], checkUpdates_checked = False\<rparr>"

definition example_config :: "BugReport list \<Rightarrow> PersistantConfig" where
  "example_config bugs =
     \<lparr>CrashReport_LastOpenedCapture = ''/captures/last.rdc'',
      CrashReport_ShouldRememberEmail = False, CrashReport_EmailAddress = ''old@example.org'',
      CrashReport_EmailNagged = False, CrashReport_ReportedBugs = bugs\<rparr>"

definition example_json :: "32 word \<Rightarrow> QVariantMap" where
  "example_json replaycrash =
     [(''gpu'', \<lparr>toString = ''Radeon'', toUInt = 0\<rparr>),
      (''replaycrash'', \<lparr>toString = toDecimal (unat replaycrash), toUInt = replaycrash\<rparr>),
      (''report'', \<lparr>toString = ''/tmp/report.zip'', toUInt = 0\<rparr>),
      (''version'', \<lparr>toString = ''1.0'', toUInt = 1\<rparr>)]"

definition example_dialog :: CrashDialog where
  "example_dialog =
     CrashDialog_new example_env example_setupUi (example_config []) (example_json 1)"

definition example_events :: "Event list" where
  "example_events =
     [EditDescription ''crash on load'', SetCaptureUpload True, SendClicked No No,
      SendClicked Yes No, ReplyError ''timeout'', ReplyFinished [], UploadCancelClicked No,
      UploadRetryClicked, ReplyUploadProgress 0 0 2000000000,
      ReplyFinished ''abc123'', SetCheckUpdates True,
      ButtonBoxAccepted (UtcMSecs 1000) (UtcMSecs 1001)]"

text \<open>A list of earlier reports, and a dialog whose upload has answered with an ID.\<close>

definition example_bugs :: "nat \<Rightarrow> BugReport list" where
  "example_bugs n =
     map (\<lambda>i. \<lparr>ID = toDecimal i, SubmitDate = UtcMSecs (int i), CheckDate = UtcMSecs (int i)\<rparr>)
       [0..<n]"

definition example_reported :: "BugReport list \<Rightarrow> CrashDialog" where
  "example_reported bugs =
     last (run example_double example_env
       (CrashDialog_new example_env example_setupUi (example_config bugs) (example_json 1))
       [SendClicked No No, ReplyFinished ''abc123'', SetCheckUpdates True])"

text \<open>
  States the example dialog reaches: one uploading, one with a new address typed and the
  capture opted in; a run that ends with a confirmed cancel, and one that ends with the
  close button of the window.
\<close>

definition example_uploading :: CrashDialog where
  "example_uploading = last (run example_double example_env example_dialog [SendClicked No No])"

definition example_opted_in :: CrashDialog where
  "example_opted_in =
     last (run example_double example_env example_dialog
       [EditEmail ''new@example.org'', SetRememberEmail True, SetCaptureUpload True])"

definition example_cancel_events :: "Event list" where
  "example_cancel_events = [SendClicked No No, UploadCancelClicked No, UploadCancelClicked Yes]"

definition example_close_events :: "Event list" where
  "example_close_events = [SendClicked No No, CloseRequested]"

section \<open>Facts about the formatting\<close>

lemma char_of_digit_ne: "n < 10 \<Longrightarrow> char_of (48 + n :: nat) \<noteq> CHR ''%''"
  by (simp add: char_of_eq_iff take_bit_eq_mod)

lemma toDecimal_no_percent: "CHR ''%'' \<notin> set (toDecimal n)"
proof (induction n rule: toDecimal.induct)
  case (1 n)
  show ?case
  proof (cases "n < 10")
    case True
    then show ?thesis using char_of_digit_ne [of n] by (simp add: toDecimal.simps [of n])
  next
    case False
    have "n mod 10 < 10" by simp
    then have "char_of (48 + n mod 10) \<noteq> CHR ''%''" by (rule char_of_digit_ne)
    with False "1.IH" show ?thesis by (simp add: toDecimal.simps [of n])
  qed
qed

lemma toDecimal_length:
  "length (toDecimal n) = (if n < 10 then 1 else Suc (length (toDecimal (n div 10))))"
  by (subst toDecimal.simps) simp

lemma toDecimal_not_Nil: "toDecimal n \<noteq> []"
  by (subst toDecimal.simps) simp

lemma rightJustified_zero: "rightJustified 0 c s = s"
  by (simp add: rightJustified_def)

lemma rightJustified_two: "rightJustified 2 (CHR ''0'') (toDecimal n) = two_digits n"
proof (cases "n < 10")
  case True
  then show ?thesis by (simp add: rightJustified_def two_digits_def toDecimal.simps [of n])
next
  case False
  have "0 < length (toDecimal (n div 10))" using toDecimal_not_Nil [of "n div 10"] by simp
  then have "2 \<le> length (toDecimal n)"
    using False by (simp add: toDecimal_length [of n] Suc_le_eq)
  then show ?thesis using False by (simp add: rightJustified_def two_digits_def)
qed

lemma two_digits_no_percent: "CHR ''%'' \<notin> set (two_digits n)"
  by (simp add: two_digits_def toDecimal_no_percent)

text \<open>Text without a percent sign holds no place marker and passes through \<open>arg\<close>.\<close>

lemma tokens_no_percent:
  "CHR ''%'' \<notin> set ds \<Longrightarrow> tokens (ds @ r) = map Lit ds @ tokens r"
proof (induction ds)
  case Nil
  then show ?case by simp
next
  case (Cons c ds)
  then have c: "c \<noteq> CHR ''%''" and IH: "tokens (ds @ r) = map Lit ds @ tokens r" by auto
  show ?case
  proof (cases "ds @ r")
    case Nil
    then show ?thesis by simp
  next
    case (Cons e es)
    have "tokens (c # ds @ r) = Lit c # tokens (ds @ r)"
      unfolding Cons using c by simp
    then show ?thesis using IH by simp
  qed
qed

lemma escape_numbers_Lit: "escape_numbers (map Lit a @ ts) = escape_numbers ts"
  by (induction a) simp_all

lemma render_Lit_comp: "concat (map (render l b \<circ> Lit) a) = a"
  by (induction a) simp_all

lemma arg_prefix:
  assumes "CHR ''%'' \<notin> set a"
  shows "arg (a @ r) b = a @ arg r b"
proof (cases "escape_numbers (tokens r)")
  case Nil
  then show ?thesis using assms by (simp add: arg_def tokens_no_percent escape_numbers_Lit)
next
  case (Cons n ns)
  then show ?thesis using assms
    by (simp add: arg_def tokens_no_percent escape_numbers_Lit render_Lit_comp)
qed

lemma arg_hms:
  assumes "CHR ''%'' \<notin> set a" "CHR ''%'' \<notin> set b"
  shows "arg (arg (arg ''%1:%2:%3'' a) b) c = a @ '':'' @ b @ '':'' @ c"
proof -
  have 1: "arg ''%1:%2:%3'' a = a @ '':%2:%3''"
    by (simp add: arg_def digitValue_def)
  have 2: "arg (a @ '':%2:%3'') b = a @ '':'' @ b @ '':%3''"
    using assms(1) by (simp add: arg_prefix) (simp add: arg_def digitValue_def)
  have 3: "arg (a @ '':'' @ b @ '':%3'') c = a @ '':'' @ b @ '':'' @ c"
  proof -
    have "CHR ''%'' \<notin> set (a @ '':'' @ b)" using assms by simp
    then have "arg ((a @ '':'' @ b) @ '':%3'') c = (a @ '':'' @ b) @ arg '':%3'' c"
      by (rule arg_prefix)
    then show ?thesis by (simp add: arg_def digitValue_def)
  qed
  show ?thesis by (simp only: 1 2 3)
qed

lemma arg_ms:
  assumes "CHR ''%'' \<notin> set a"
  shows "arg (arg ''%1:%2'' a) b = a @ '':'' @ b"
proof -
  have 1: "arg ''%1:%2'' a = a @ '':%2''"
    by (simp add: arg_def digitValue_def)
  have 2: "arg (a @ '':%2'') b = a @ '':'' @ b"
    using assms by (simp add: arg_prefix) (simp add: arg_def digitValue_def)
  show ?thesis by (simp only: 1 2)
qed

lemma arg_seconds: "arg ''%1 seconds'' a = a @ '' seconds''"
  by (simp add: arg_def digitValue_def)

lemma remainString_cases:
  "remainString n =
     (if 3600 \<le> unat n then
        two_digits (unat n div 3600) @ '':'' @ two_digits (unat n div 60 mod 60) @ '':'' @
        two_digits (unat n mod 60)
      else if 60 \<le> unat n then two_digits (unat n div 60) @ '':'' @ two_digits (unat n mod 60)
      else toDecimal (unat n) @ '' seconds'')"
proof -
  have h: "(0 < n div 3600) = (3600 \<le> unat n)"
    by (simp add: word_less_nat_alt unat_div div_greater_zero_iff)
  have m: "unat n < 3600 \<Longrightarrow> (0 < (n div 60) mod 60) = (60 \<le> unat n)"
    by (simp add: word_less_nat_alt unat_div unat_mod div_greater_zero_iff)
  have m2: "unat n < 3600 \<Longrightarrow> unat n div 60 mod 60 = unat n div 60"
    by simp
  show ?thesis
    by (simp add: remainString_def Let_def h m arg_ull_def rightJustified_two arg_hms arg_ms
        arg_seconds tr_def two_digits_no_percent unat_div unat_mod not_le rightJustified_zero m2)
qed

lemmas format_eval =
  remainString_def arg_ull_def arg_def rightJustified_def toDecimal.simps digitValue_def tr_def
  char_of_eq_iff

section \<open>Facts about the templates and the body\<close>

lemma arg_form_data: \<open>arg ''form-data; name="%1"'' key = ''form-data; name="'' @ key @ ''"''\<close>
  by (simp add: arg_def digitValue_def)

lemma foldl_append_map: "foldl (\<lambda>acc x. acc @ [f x]) acc0 xs = acc0 @ map f xs"
  by (induction xs arbitrary: acc0) simp_all

lemma sendReport_multiPart_eq:
  \<open>sendReport_multiPart d =
     map (\<lambda>key. form_part key (toString (valueOf (m_ReportMetadata d) key)))
       (keys (m_ReportMetadata d)) @
     (if email_text (ui d) \<noteq> [] then [form_part ''email'' (email_text (ui d))] else []) @
     (if description_text (ui d) \<noteq> [] then [form_part ''description'' (description_text (ui d))]
      else []) @
     (if m_CaptureFilename d \<noteq> [] \<and> captureUpload_checked (ui d) then
        file_part ''application/x-renderdoc-capture'' ''capture'' ''capture.rdc''
          (BodyDevice (m_CaptureFilename d)) #
        (case m_Thumbnail d of
           None \<Rightarrow> []
         | Some thumbnail \<Rightarrow> [file_part ''image/jpeg'' ''thumb'' ''thumb.jpg'' (Body (data thumbnail))])
      else []) @
     [file_part ''application/zip'' ''report'' ''report.zip'' (BodyDevice (m_ReportPath d))]\<close>
  by (simp add: sendReport_multiPart_def Let_def foldl_append_map arg_form_data form_part_def
      file_part_def newQHttpPart_def toUtf8_def split: option.splits)

lemma arg_network_error:
  "arg ''Network error uploading:\<newline>%1'' e = ''Network error uploading:\<newline>'' @ e"
  by (simp add: arg_def digitValue_def)

lemma arg_url:
  \<open>arg ''<p>The unique anonymous URL for your report is <a href="%1">%1</a>.</p>'' u =
     ''<p>The unique anonymous URL for your report is <a href="'' @ u @ ''">'' @ u @ ''</a>.</p>''\<close>
  by (simp add: arg_def digitValue_def)

section \<open>Facts about the handlers\<close>

lemma setStage_obs:
  "m_Stage (setStage s d) = s"
  "reportGroup_visible (ui (setStage s d)) = (s = FillingDetails)"
  "uploadingGroup_visible (ui (setStage s d)) = (s = Uploading)"
  "reportedGroup_visible (ui (setStage s d)) = (s = Reported)"
  "m_Request (setStage s d) = m_Request d"
  "result (setStage s d) = result d"
  "uploadRetry_enabled (ui (setStage s d)) = uploadRetry_enabled (ui d)"
  by (cases s; simp add: setStage_def)+

lemma sendReport_obs:
  "m_Stage (sendReport E d) = m_Stage d"
  "reportGroup_visible (ui (sendReport E d)) = reportGroup_visible (ui d)"
  "uploadingGroup_visible (ui (sendReport E d)) = uploadingGroup_visible (ui d)"
  "reportedGroup_visible (ui (sendReport E d)) = reportedGroup_visible (ui d)"
  "m_Request (sendReport E d) \<noteq> None"
  "result (sendReport E d) = result d"
  by (simp_all add: sendReport_def Let_def)

lemma networkError_obs:
  "m_Stage (networkError s d) = m_Stage d"
  "reportGroup_visible (ui (networkError s d)) = reportGroup_visible (ui d)"
  "uploadingGroup_visible (ui (networkError s d)) = uploadingGroup_visible (ui d)"
  "reportedGroup_visible (ui (networkError s d)) = reportedGroup_visible (ui d)"
  "m_Request (networkError s d) = m_Request d"
  "result (networkError s d) = result d"
  "uploadRetry_enabled (ui (networkError s d))"
  by (simp_all add: networkError_def)

lemma uploadProgress_obs:
  "m_Stage (uploadProgress F a b c d) = m_Stage d"
  "reportGroup_visible (ui (uploadProgress F a b c d)) = reportGroup_visible (ui d)"
  "uploadingGroup_visible (ui (uploadProgress F a b c d)) = uploadingGroup_visible (ui d)"
  "reportedGroup_visible (ui (uploadProgress F a b c d)) = reportedGroup_visible (ui d)"
  "m_Request (uploadProgress F a b c d) = m_Request d"
  "result (uploadProgress F a b c d) = result d"
  by (simp_all add: uploadProgress_def Let_def)

lemma finished_inv:
  assumes "stage_inv d" "m_Stage d \<noteq> FillingDetails"
  shows "stage_step (m_Stage d) (m_Stage (finished E b d))" "stage_inv (finished E b d)"
    "result (finished E b d) = result d" "m_Request (finished E b d) = m_Request d"
  using assms
  by (cases "m_Stage d"; simp add: finished_def Let_def stage_inv_def setStage_obs stage_step_def)+


lemma save_and_send_obs:
  "m_Stage (save_and_send E d) = Uploading"
  "reportGroup_visible (ui (save_and_send E d)) = False"
  "uploadingGroup_visible (ui (save_and_send E d)) = True"
  "reportedGroup_visible (ui (save_and_send E d)) = False"
  "result (save_and_send E d) = result d"
  by (simp_all add: save_and_send_def Let_def setStage_obs sendReport_obs Save_def)

lemma on_send_clicked_inv:
  assumes "stage_inv d" "m_Stage d = FillingDetails"
  shows "stage_step (m_Stage d) (m_Stage (on_send_clicked E a b d))"
    "stage_inv (on_send_clicked E a b d)"
    "result (on_send_clicked E a b d) = result d"
  using assms
  by (simp_all add: on_send_clicked_def Let_def Save_def save_and_send_obs stage_inv_def
      stage_step_def)

lemma abort_inv:
  assumes "stage_inv d" "m_Stage d \<noteq> FillingDetails"
  shows "m_Stage (abort E d) = m_Stage d" "stage_inv (abort E d)"
    "result (abort E d) = result d"
  using assms
  by (auto simp add: abort_def finished_def networkError_def stage_inv_def
      split: option.splits)

lemma on_uploadCancel_clicked_inv:
  assumes "stage_inv d" "m_Stage d \<noteq> FillingDetails"
  shows "m_Stage (on_uploadCancel_clicked E a d) = m_Stage d"
    "stage_inv (on_uploadCancel_clicked E a d)"
    "a \<noteq> Yes \<Longrightarrow> on_uploadCancel_clicked E a d = d"
  using assms abort_inv [OF assms, where E = E]
  by (auto simp add: on_uploadCancel_clicked_def Let_def reject_def stage_inv_def)

lemma on_uploadRetry_clicked_inv:
  assumes "stage_inv d" "m_Stage d \<noteq> FillingDetails"
  shows "m_Stage (on_uploadRetry_clicked E d) = m_Stage d"
    "stage_inv (on_uploadRetry_clicked E d)"
    "result (on_uploadRetry_clicked E d) = result d"
  using assms
  by (simp_all add: on_uploadRetry_clicked_def Let_def sendReport_obs stage_inv_def)

lemma on_buttonBox_accepted_inv:
  assumes "stage_inv d"
  shows "m_Stage (on_buttonBox_accepted t1 t2 d) = m_Stage d"
    "stage_inv (on_buttonBox_accepted t1 t2 d)"
  using assms
  by (simp_all add: on_buttonBox_accepted_def Let_def Save_def accept_def stage_inv_def)

lemma CrashDialog_new_inv: "stage_inv (CrashDialog_new E u cfg json)"
  by (simp add: CrashDialog_new_def Let_def stage_inv_def setStage_def)

lemma close_confirmed_same: "result d' = result d \<Longrightarrow> close_confirmed ev d d'"
  by (auto simp add: close_confirmed_def)

lemma close_confirmed_stage: "m_Stage d \<noteq> Uploading \<Longrightarrow> close_confirmed ev d d'"
  by (auto simp add: close_confirmed_def)

lemma fire_step:
  assumes inv: "stage_inv d" and f: "fire F E ev d = Some d'"
  shows "stage_step (m_Stage d) (m_Stage d') \<and> close_confirmed ev d d' \<and> stage_inv d'"
proof -
  from f have en: "enabled ev d" and d': "d' = dispatch F E ev d"
    by (auto simp add: fire_def split: if_splits)
  show ?thesis
  proof (cases ev)
    case (SendClicked a b)
    with en inv have st: "m_Stage d = FillingDetails" by (simp add: stage_inv_def)
    show ?thesis
      using on_send_clicked_inv [OF inv st, where E = E and a = a and b = b] st
      by (simp add: d' SendClicked close_confirmed_same close_confirmed_stage)
  next
    case CancelClicked
    with en inv have st: "m_Stage d = FillingDetails" by (simp add: stage_inv_def)
    then show ?thesis using inv
      by (simp add: d' CancelClicked close_confirmed_same close_confirmed_stage on_cancel_clicked_def reject_def
          stage_inv_def stage_step_def)
  next
    case (UploadCancelClicked a)
    with en inv have st: "m_Stage d = Uploading" by (simp add: stage_inv_def)
    then have nf: "m_Stage d \<noteq> FillingDetails" by simp
    show ?thesis
      using on_uploadCancel_clicked_inv [OF inv nf, where E = E and a = a]
      by (cases "a = Yes") (auto simp add: d' UploadCancelClicked close_confirmed_def stage_step_def)
  next
    case UploadRetryClicked
    with en inv have st: "m_Stage d = Uploading" by (simp add: stage_inv_def)
    then have nf: "m_Stage d \<noteq> FillingDetails" by simp
    show ?thesis
      using on_uploadRetry_clicked_inv [OF inv nf, where E = E] en
      by (simp add: d' UploadRetryClicked close_confirmed_same close_confirmed_stage stage_step_def)
  next
    case (ButtonBoxAccepted t1 t2)
    with en inv have st: "m_Stage d = Reported" by (simp add: stage_inv_def)
    show ?thesis
      using on_buttonBox_accepted_inv [OF inv, where ?t1.0 = t1 and ?t2.0 = t2] st
      by (simp add: d' ButtonBoxAccepted close_confirmed_same close_confirmed_stage stage_step_def)
  next
    case CloseRequested
    then show ?thesis using inv
      by (simp add: d' close_confirmed_def reject_def stage_step_def stage_inv_def)
  next
    case (ReplyError s)
    then show ?thesis using inv
      by (simp add: d' close_confirmed_same close_confirmed_stage stage_step_def stage_inv_def networkError_obs)
  next
    case (ReplyUploadProgress a b c)
    then show ?thesis using inv
      by (simp add: d' close_confirmed_same close_confirmed_stage stage_step_def stage_inv_def uploadProgress_obs)
  next
    case (ReplyFinished b)
    let ?d = "d\<lparr>m_Request := map_option (\<lambda>r. r\<lparr>isRunning := False\<rparr>) (m_Request d)\<rparr>"
    from en ReplyFinished have "m_Request d \<noteq> None" by (auto split: option.splits)
    with inv have nf: "m_Stage ?d \<noteq> FillingDetails" and inv': "stage_inv ?d"
      by (auto simp add: stage_inv_def)
    show ?thesis
      using finished_inv [OF inv' nf, where E = E and b = b]
      by (simp add: d' ReplyFinished close_confirmed_same close_confirmed_stage)
  qed (use inv in \<open>simp_all add: d' close_confirmed_same close_confirmed_stage stage_step_def stage_inv_def\<close>)
qed


section \<open>C1: the remaining-time text\<close>

text \<open>
  C1, as the code has it. The remaining time is written \<open>HH:MM:SS\<close> from one hour on
  (the hours with at least two digits, as many as they need), \<open>MM:SS\<close> from one minute
  on, and \<open>N seconds\<close> below: every field but the plain seconds is padded with zeros to
  two digits, the leading one too. So 125 seconds read \<open>02:05\<close>, 3700 seconds
  \<open>01:01:40\<close> and 11 seconds \<open>11 seconds\<close>.
\<close>

theorem remainString_format:
  "remainString n =
     (if 3600 \<le> unat n then
        two_digits (unat n div 3600) @ '':'' @ two_digits (unat n div 60 mod 60) @ '':'' @
        two_digits (unat n mod 60)
      else if 60 \<le> unat n then two_digits (unat n div 60) @ '':'' @ two_digits (unat n mod 60)
      else toDecimal (unat n) @ '' seconds'')
   \<and> remainString 125 = ''02:05''
   \<and> remainString 3700 = ''01:01:40''
   \<and> remainString 11 = ''11 seconds''"
proof -
  have "remainString 125 = ''02:05''" by (simp add: format_eval)
  moreover have "remainString 3700 = ''01:01:40''" by (simp add: format_eval)
  moreover have "remainString 11 = ''11 seconds''" by (simp add: format_eval)
  ultimately show ?thesis using remainString_cases [of n] by simp
qed

text \<open>
  C1 as stated fails: the code never writes the unpadded \<open>2:05\<close> or \<open>1:01:40\<close>.
\<close>

theorem remainString_unpadded_counterexample:
  "remainString 125 \<noteq> ''2:05'' \<and> remainString 3700 \<noteq> ''1:01:40''"
  by (simp add: format_eval)

section \<open>C2: the list of reported bugs\<close>

lemma erase_0: "erase 0 xs = drop 1 xs"
  by (cases xs) (simp_all add: erase_def)

lemma on_buttonBox_accepted_eq:
  assumes "m_ReportID d \<noteq> []" and "checkUpdates_checked (ui d)"
  shows "on_buttonBox_accepted now1 now2 d =
     d\<lparr>m_Config := (m_Config d)\<lparr>CrashReport_ReportedBugs :=
          (if 20 \<le> length (CrashReport_ReportedBugs (m_Config d))
           then drop 1 (CrashReport_ReportedBugs (m_Config d))
           else CrashReport_ReportedBugs (m_Config d)) @
          [\<lparr>ID = m_ReportID d, SubmitDate = now1, CheckDate = now2\<rparr>]\<rparr>,
       saved := saved d @ [(m_Config d)\<lparr>CrashReport_ReportedBugs :=
          (if 20 \<le> length (CrashReport_ReportedBugs (m_Config d))
           then drop 1 (CrashReport_ReportedBugs (m_Config d))
           else CrashReport_ReportedBugs (m_Config d)) @
          [\<lparr>ID = m_ReportID d, SubmitDate = now1, CheckDate = now2\<rparr>]\<rparr>],
       result := Some Accepted\<rparr>"
  using assms
  by (cases "CrashReport_ReportedBugs (m_Config d)")
     (simp_all add: on_buttonBox_accepted_def Let_def push_back_def count_def erase_0 Save_def
      accept_def newBugReport_def)

text \<open>
  C2, as the code has it. Accepting the dialog with a report ID and the check-for-updates
  box ticked appends the new record last, evicts the entry at index 0 and no other when
  the list held 20 entries or more, saves the configuration and accepts. The list holds
  at most 20 entries afterwards whenever it held at most 20 before; the 21st record
  leaves 20 entries, the new one last.
\<close>

theorem on_buttonBox_accepted_bugs:
  assumes "m_ReportID d \<noteq> []" and "checkUpdates_checked (ui d)"
  shows
    "let bugs = CrashReport_ReportedBugs (m_Config d);
         bug = \<lparr>ID = m_ReportID d, SubmitDate = now1, CheckDate = now2\<rparr>;
         d' = on_buttonBox_accepted now1 now2 d;
         bugs' = CrashReport_ReportedBugs (m_Config d')
     in bugs' = (if 20 \<le> length bugs then drop 1 bugs else bugs) @ [bug] \<and>
        last bugs' = bug \<and>
        (length bugs \<le> 20 \<longrightarrow> length bugs' \<le> 20) \<and>
        (length bugs = 20 \<longrightarrow> length bugs' = 20 \<and> bugs' = tl bugs @ [bug]) \<and>
        saved d' = saved d @ [m_Config d'] \<and>
        result d' = Some Accepted"
  by (simp add: on_buttonBox_accepted_eq [OF assms] Let_def drop_Suc)

lemma example_reported_20:
  "m_ReportID (example_reported (example_bugs 20)) = ''abc123''"
  "checkUpdates_checked (ui (example_reported (example_bugs 20)))"
  "m_Stage (example_reported (example_bugs 20)) = Reported"
  "CrashReport_ReportedBugs (m_Config (example_reported (example_bugs 20))) = example_bugs 20"
  by code_simp+

lemma example_bugs_20: "length (example_bugs 20) = 20" "length (example_bugs 21) = 21"
  by (simp_all add: example_bugs_def)

theorem on_buttonBox_accepted_bugs_witness:
  "m_ReportID (example_reported (example_bugs 20)) \<noteq> [] \<and>
   checkUpdates_checked (ui (example_reported (example_bugs 20))) \<and>
   CrashReport_ReportedBugs (m_Config
     (on_buttonBox_accepted (UtcMSecs 5) (UtcMSecs 6) (example_reported (example_bugs 20)))) =
     tl (example_bugs 20) @ [\<lparr>ID = ''abc123'', SubmitDate = UtcMSecs 5, CheckDate = UtcMSecs 6\<rparr>] \<and>
   length (CrashReport_ReportedBugs (m_Config
     (on_buttonBox_accepted (UtcMSecs 5) (UtcMSecs 6) (example_reported (example_bugs 20))))) = 20"
proof -
  have a: "m_ReportID (example_reported (example_bugs 20)) \<noteq> []"
    by (simp add: example_reported_20)
  have b: "checkUpdates_checked (ui (example_reported (example_bugs 20)))"
    by (simp add: example_reported_20)
  show ?thesis
    using on_buttonBox_accepted_bugs [OF a b, of "UtcMSecs 5" "UtcMSecs 6"] a b
    by (simp add: Let_def example_reported_20 example_bugs_20 drop_Suc)
qed

lemma example_reported_21:
  "m_ReportID (example_reported (example_bugs 21)) = ''abc123''"
  "checkUpdates_checked (ui (example_reported (example_bugs 21)))"
  "CrashReport_ReportedBugs (m_Config (example_reported (example_bugs 21))) = example_bugs 21"
  by code_simp+

text \<open>
  C2 as stated fails for a persisted list that already holds more than 20 entries: one
  append evicts one entry, so 21 entries stay 21.
\<close>

theorem on_buttonBox_accepted_cap_counterexample:
  "m_ReportID (example_reported (example_bugs 21)) \<noteq> [] \<and>
   checkUpdates_checked (ui (example_reported (example_bugs 21))) \<and>
   length (CrashReport_ReportedBugs (m_Config
     (on_buttonBox_accepted (UtcMSecs 5) (UtcMSecs 6) (example_reported (example_bugs 21))))) = 21 \<and>
   \<not> length (CrashReport_ReportedBugs (m_Config
     (on_buttonBox_accepted (UtcMSecs 5) (UtcMSecs 6) (example_reported (example_bugs 21))))) \<le> 20"
proof -
  have a: "m_ReportID (example_reported (example_bugs 21)) \<noteq> []"
    by (simp add: example_reported_21)
  have b: "checkUpdates_checked (ui (example_reported (example_bugs 21)))"
    by (simp add: example_reported_21)
  show ?thesis
    using a b
    by (simp add: on_buttonBox_accepted_eq [OF a b] example_reported_21 example_bugs_20)
qed

section \<open>Facts about the concrete dialog\<close>

lemma example_uploading_eval:
  "m_Stage example_uploading = Uploading"
  "\<not> uploadRetry_enabled (ui example_uploading)"
  "result example_uploading = None"
  by code_simp+

lemma example_opted_in_eval:
  "captureUpload_checked (ui example_opted_in)"
  "m_Stage example_opted_in = FillingDetails"
  "m_Request example_opted_in = None"
  "saved example_opted_in = []"
  "CrashReport_EmailAddress (m_Config example_opted_in) = ''old@example.org''"
  "rememberEmail_checked (ui example_opted_in)"
  "email_text (ui example_opted_in) = ''new@example.org''"
  by code_simp+

section \<open>The progress handler\<close>

text \<open>
  What the handler of \<open>uploadProgress\<close> does whatever the arithmetic of doubles gives:
  it leaves the text alone unless the total is positive and above the sent count and the
  elapsed seconds compare greater than 1, and the text it sets then holds the two sizes,
  the remaining time as \<open>remainString\<close> writes it, and the speed.
\<close>

lemma uploadProgress_warm_up:
  "bytesTotal \<le>s 0 \<or> bytesTotal \<le>s bytesSent \<or>
     \<not> greater F (mul F (of_qint64 F nsecsElapsed) (d_1e_9 F)) (d_1 F) \<Longrightarrow>
   progressText_text (ui (uploadProgress F bytesSent bytesTotal nsecsElapsed d)) =
     progressText_text (ui d)"
  by (auto simp add: uploadProgress_def Let_def signed.not_less)

lemma remainString_no_percent: "CHR ''%'' \<notin> set (remainString n)"
  by (simp add: remainString_cases two_digits_no_percent toDecimal_no_percent)

lemma arg_progress:
  assumes "CHR ''%'' \<notin> set a" "CHR ''%'' \<notin> set b" "CHR ''%'' \<notin> set r"
  shows "arg (arg (arg (arg
           ''Uploading report...\<newline>%1 MB / %2 MB. %3 remaining (%4 MB/s)'' a) b) r) c =
         ''Uploading report...\<newline>'' @ a @ '' MB / '' @ b @ '' MB. '' @ r @
         '' remaining ('' @ c @ '' MB/s)''"
proof -
  let ?p1 = "''Uploading report...\<newline>'' @ a @ '' MB / ''"
  let ?p2 = "?p1 @ b @ '' MB. ''"
  let ?p3 = "?p2 @ r @ '' remaining (''"
  have 1: "arg ''Uploading report...\<newline>%1 MB / %2 MB. %3 remaining (%4 MB/s)'' a =
           ?p1 @ ''%2 MB. %3 remaining (%4 MB/s)''"
    by (simp add: arg_def digitValue_def)
  have n1: "CHR ''%'' \<notin> set ?p1" using assms by simp
  have 2: "arg (?p1 @ ''%2 MB. %3 remaining (%4 MB/s)'') b = ?p2 @ ''%3 remaining (%4 MB/s)''"
    by (simp only: arg_prefix [OF n1]) (simp add: arg_def digitValue_def)
  have n2: "CHR ''%'' \<notin> set ?p2" using assms by simp
  have 3: "arg (?p2 @ ''%3 remaining (%4 MB/s)'') r = ?p3 @ ''%4 MB/s)''"
    by (simp only: arg_prefix [OF n2]) (simp add: arg_def digitValue_def)
  have n3: "CHR ''%'' \<notin> set ?p3" using assms by simp
  have 4: "arg (?p3 @ ''%4 MB/s)'') c = ?p3 @ c @ '' MB/s)''"
    by (simp only: arg_prefix [OF n3]) (simp add: arg_def digitValue_def)
  show ?thesis by (simp only: 1 2 3 4) simp
qed

lemma uploadProgress_text:
  assumes "0 <s bytesTotal" and "bytesSent <s bytesTotal"
    and "greater F (mul F (of_qint64 F nsecsElapsed) (d_1e_9 F)) (d_1 F)"
    and "\<And>x. CHR ''%'' \<notin> set (number_f2 F x)"
  shows "progressText_text (ui (uploadProgress F bytesSent bytesTotal nsecsElapsed d)) =
     ''Uploading report...\<newline>'' @
     number_f2 F (divide F (of_qint64 F bytesSent) (d_1000000 F)) @ '' MB / '' @
     number_f2 F (divide F (of_qint64 F bytesTotal) (d_1000000 F)) @ '' MB. '' @
     remainString (to_qulonglong F
       (divide F
         (minus F (divide F (of_qint64 F bytesTotal) (d_1000000 F))
                  (divide F (of_qint64 F bytesSent) (d_1000000 F)))
         (divide F (divide F (of_qint64 F bytesSent) (d_1000000 F))
                   (mul F (of_qint64 F nsecsElapsed) (d_1e_9 F))))) @
     '' remaining ('' @
     number_f2 F (divide F (divide F (of_qint64 F bytesSent) (d_1000000 F))
                           (mul F (of_qint64 F nsecsElapsed) (d_1e_9 F))) @
     '' MB/s)''"
  using assms(1-3)
  by (simp add: uploadProgress_def Let_def tr_def arg_progress [OF assms(4) assms(4) remainString_no_percent])


section \<open>Facts about the doubles\<close>

text \<open>
  The exponent \<open>floor_log2\<close> finds is the binade of its argument; rounding is monotone
  and keeps a number within the powers of two that enclose it, so the quotients and
  products of the progress handler stay finite, and the bar within its scale.
\<close>

lemma halvings_bounds: "1 \<le> x \<Longrightarrow> 2 ^ halvings x \<le> x \<and> x < 2 ^ Suc (halvings x)"
proof (induction x rule: halvings.induct)
  case (1 x)
  show ?case
  proof (cases "x < 2")
    case True
    then show ?thesis using "1.prems" by (simp add: halvings.simps [of x])
  next
    case False
    then have "1 \<le> x / 2" by simp
    with "1.IH" False have "2 ^ halvings (x / 2) \<le> x / 2 \<and> x / 2 < 2 ^ Suc (halvings (x / 2))"
      by simp
    then show ?thesis using False by (simp add: halvings.simps [of x])
  qed
qed

lemma doublings_bounds:
  "0 < x \<Longrightarrow> x < 1 \<Longrightarrow> 1 \<le> 2 ^ doublings x * x \<and> 2 ^ doublings x * x < 2"
proof (induction x rule: doublings.induct)
  case (1 x)
  show ?case
  proof (cases "1 \<le> 2 * x")
    case True
    then have "doublings (2 * x) = 0" by (simp add: doublings.simps [of "2 * x"])
    then show ?thesis using "1.prems" True by (simp add: doublings.simps [of x])
  next
    case False
    then have "2 * x < 1" "0 < 2 * x" using "1.prems" by simp_all
    with "1.IH" "1.prems"
    have "1 \<le> 2 ^ doublings (2 * x) * (2 * x) \<and> 2 ^ doublings (2 * x) * (2 * x) < 2"
      by simp
    then show ?thesis using "1.prems" by (simp add: doublings.simps [of x] mult.assoc)
  qed
qed

lemma floor_log2_bounds:
  assumes "0 < x"
  shows "2 powi floor_log2 x \<le> x" and "x < 2 powi (floor_log2 x + 1)"
proof -
  show "2 powi floor_log2 x \<le> x"
  proof (cases "1 \<le> x")
    case True
    then show ?thesis using halvings_bounds [of x] by (simp add: floor_log2_def)
  next
    case False
    then have x: "x < 1" by simp
    have "1 \<le> 2 ^ doublings x * x" using doublings_bounds [OF assms x] by simp
    then have "1 / 2 ^ doublings x \<le> x" by (simp add: field_simps)
    then show ?thesis using False by (simp add: floor_log2_def power_int_minus_divide)
  qed
  show "x < 2 powi (floor_log2 x + 1)"
  proof (cases "1 \<le> x")
    case True
    have "int (halvings x) + 1 = int (Suc (halvings x))" by simp
    then have "2 powi (int (halvings x) + 1) = (2 :: rat) ^ Suc (halvings x)"
      by (simp only: power_int_of_nat)
    then show ?thesis using halvings_bounds [OF True] True by (simp add: floor_log2_def)
  next
    case False
    then have x: "x < 1" by simp
    have b: "2 ^ doublings x * x < 2" using doublings_bounds [OF assms x] by simp
    have "(2 :: rat) powi (- int (doublings x) + 1) = 2 powi (- int (doublings x)) * 2"
      by (rule power_int_add_1) simp
    also have "\<dots> = 2 / 2 ^ doublings x" by (simp add: power_int_minus_divide)
    finally have e: "(2 :: rat) powi (- int (doublings x) + 1) = 2 / 2 ^ doublings x" .
    have "x < 2 / 2 ^ doublings x" using b by (simp add: field_simps)
    moreover have "floor_log2 x + 1 = - int (doublings x) + 1"
      using False by (simp add: floor_log2_def)
    ultimately show ?thesis by (simp only: e)
  qed
qed

lemma pow2_less_iff: "(2 :: rat) powi a < 2 powi b \<longleftrightarrow> a < b"
proof
  assume l: "(2 :: rat) powi a < 2 powi b"
  show "a < b"
  proof (rule ccontr)
    assume "\<not> a < b"
    then have "b \<le> a" by simp
    then have "(2 :: rat) powi b \<le> 2 powi a" by (rule power_int_increasing) simp
    with l show False by simp
  qed
next
  assume "a < b"
  then show "(2 :: rat) powi a < 2 powi b" by (rule power_int_strict_increasing) simp
qed

lemma pow2_le_iff: "(2 :: rat) powi a \<le> 2 powi b \<longleftrightarrow> a \<le> b"
  using pow2_less_iff [of b a] by (simp add: not_less [symmetric])

lemma pow2_pos: "0 < (2 :: rat) powi a"
  by (simp add: power_int_def)

lemma round_to_even_lower: "of_int z \<le> r \<Longrightarrow> z \<le> round_to_even r"
proof -
  assume "of_int z \<le> r"
  then have "z \<le> \<lfloor>r\<rfloor>" by (simp add: le_floor_iff)
  then show ?thesis by (simp add: round_to_even_def Let_def)
qed

lemma round_to_even_upper: "r \<le> of_int z \<Longrightarrow> round_to_even r \<le> z"
proof -
  assume a: "r \<le> of_int z"
  show ?thesis
  proof (cases "r = of_int z")
    case True
    then show ?thesis by (simp add: round_to_even_def Let_def)
  next
    case False
    with a have "r < of_int z" by simp
    then have "\<lfloor>r\<rfloor> < z" by (simp add: floor_less_iff)
    then show ?thesis by (simp add: round_to_even_def Let_def)
  qed
qed

lemma round_to_even_of_int: "round_to_even (of_int z) = z"
  by (simp add: round_to_even_def Let_def)

lemma round_to_even_mono: "a \<le> b \<Longrightarrow> round_to_even a \<le> round_to_even b"
proof -
  assume ab: "a \<le> b"
  then have f: "\<lfloor>a\<rfloor> \<le> \<lfloor>b\<rfloor>" by (rule floor_mono)
  show ?thesis
  proof (cases "\<lfloor>a\<rfloor> = \<lfloor>b\<rfloor>")
    case True
    then have "a - of_int \<lfloor>a\<rfloor> \<le> b - of_int \<lfloor>b\<rfloor>" using ab by simp
    then show ?thesis using True by (auto simp add: round_to_even_def Let_def)
  next
    case False
    with f have "\<lfloor>a\<rfloor> + 1 \<le> \<lfloor>b\<rfloor>" by simp
    moreover have "round_to_even a \<le> \<lfloor>a\<rfloor> + 1" by (simp add: round_to_even_def Let_def)
    moreover have "\<lfloor>b\<rfloor> \<le> round_to_even b" by (simp add: round_to_even_def Let_def)
    ultimately show ?thesis by linarith
  qed
qed

text \<open>In the normal range the rounded value stays within the binade of the argument.\<close>

lemma round53_normal:
  assumes x: "0 < x" and n: "- 1022 \<le> floor_log2 x"
  shows "round53 x = of_int (round_to_even (x / 2 powi (floor_log2 x - 52))) * 2 powi (floor_log2 x - 52)"
    and "2 powi floor_log2 x \<le> round53 x"
    and "round53 x \<le> 2 powi (floor_log2 x + 1)"
proof -
  let ?e = "floor_log2 x"
  let ?u = "(2 :: rat) powi (?e - 52)"
  have u: "0 < ?u" by (simp add: power_int_def)
  have ax: "\<bar>x\<bar> = x" using x by simp
  show r: "round53 x = of_int (round_to_even (x / ?u)) * ?u"
    using x n by (simp add: round53_def ax max_def Let_def)
  have lo: "2 powi ?e = 2 ^ 52 * ?u"
    using power_int_add [of "2 :: rat" 52 "?e - 52"] by simp
  have "?e + 1 = 53 + (?e - 52)" by simp
  then have "(2 :: rat) powi (?e + 1) = 2 powi (53 + (?e - 52))" by (rule arg_cong)
  also have "\<dots> = 2 powi 53 * ?u" by (rule power_int_add) simp
  finally have hi: "2 powi (?e + 1) = 2 ^ 53 * ?u" by simp
  have "2 ^ 52 * ?u \<le> x" using floor_log2_bounds(1) [OF x] lo by simp
  then have "of_int (2 ^ 52) \<le> x / ?u" using u by (simp add: field_simps)
  then have "2 ^ 52 \<le> round_to_even (x / ?u)" by (rule round_to_even_lower)
  then have "(2 :: rat) ^ 52 \<le> of_int (round_to_even (x / ?u))"
    by (metis of_int_le_iff of_int_numeral of_int_power)
  then show "2 powi ?e \<le> round53 x" using u by (simp add: r lo)
  have "x < 2 ^ 53 * ?u" using floor_log2_bounds(2) [OF x] hi by simp
  then have "x / ?u \<le> of_int (2 ^ 53)" using u by (simp add: field_simps)
  then have "round_to_even (x / ?u) \<le> 2 ^ 53" by (rule round_to_even_upper)
  then have "of_int (round_to_even (x / ?u)) \<le> (2 :: rat) ^ 53"
    by (metis of_int_le_iff of_int_numeral of_int_power)
  then show "round53 x \<le> 2 powi (?e + 1)" using u by (simp add: r hi)
qed

lemma floor_log2_ge:
  assumes "0 < x" and "2 powi a \<le> x"
  shows "a \<le> floor_log2 x"
proof -
  have "(2 :: rat) powi a < 2 powi (floor_log2 x + 1)"
    using floor_log2_bounds(2) [OF assms(1)] assms(2) by simp
  then have "a < floor_log2 x + 1" by (simp only: pow2_less_iff)
  then show ?thesis by simp
qed

lemma round53_bounds:
  assumes lo: "2 powi a \<le> x" and hi: "x \<le> 2 powi b" and n: "- 1022 \<le> a"
  shows "2 powi a \<le> round53 x" and "round53 x \<le> 2 powi b"
proof -
  have x: "0 < x" by (rule less_le_trans [OF pow2_pos lo])
  let ?e = "floor_log2 x"
  have ae: "a \<le> ?e" using x lo by (rule floor_log2_ge)
  then have ne: "- 1022 \<le> ?e" using n by simp
  have "(2 :: rat) powi a \<le> 2 powi ?e" using ae by (simp only: pow2_le_iff)
  then show "2 powi a \<le> round53 x" using round53_normal(2) [OF x ne] by simp
  have "(2 :: rat) powi ?e \<le> 2 powi b" using floor_log2_bounds(1) [OF x] hi by simp
  then have eb: "?e \<le> b" by (simp only: pow2_le_iff)
  show "round53 x \<le> 2 powi b"
  proof (cases "?e = b")
    case True
    then have xb: "x = 2 powi b" using floor_log2_bounds(1) [OF x] hi by simp
    have "b = 52 + (b - 52)" by simp
    then have "(2 :: rat) powi b = 2 powi (52 + (b - 52))" by (rule arg_cong)
    also have "\<dots> = 2 powi 52 * 2 powi (b - 52)" by (rule power_int_add) simp
    finally have "x / 2 powi (b - 52) = of_int (2 ^ 52)" using xb by simp
    then have "round_to_even (x / 2 powi (b - 52)) = 2 ^ 52"
      by (simp only: round_to_even_of_int)
    then have "round53 x = 2 ^ 52 * 2 powi (b - 52)"
      using round53_normal(1) [OF x ne] True by simp
    also have "\<dots> = 2 powi 52 * 2 powi (b - 52)" by simp
    also have "\<dots> = 2 powi (52 + (b - 52))" by (rule power_int_add [symmetric]) simp
    finally show ?thesis by simp
  next
    case False
    with eb have "?e + 1 \<le> b" by simp
    then have "(2 :: rat) powi (?e + 1) \<le> 2 powi b" by (simp only: pow2_le_iff)
    then show ?thesis using round53_normal(3) [OF x ne] by simp
  qed
qed

lemma round53_mono:
  assumes lo: "2 powi (- 1022) \<le> x" and xy: "x \<le> y"
  shows "round53 x \<le> round53 y"
proof -
  have x: "0 < x" by (rule less_le_trans [OF pow2_pos lo])
  then have y: "0 < y" using xy by simp
  let ?ex = "floor_log2 x" and ?ey = "floor_log2 y"
  have nx: "- 1022 \<le> ?ex" using x lo by (rule floor_log2_ge)
  have "(2 :: rat) powi ?ex \<le> y" using floor_log2_bounds(1) [OF x] xy by simp
  with y have exy: "?ex \<le> ?ey" by (rule floor_log2_ge)
  then have ny: "- 1022 \<le> ?ey" using nx by simp
  show ?thesis
  proof (cases "?ex = ?ey")
    case True
    let ?u = "(2 :: rat) powi (?ey - 52)"
    have u: "0 < ?u" by (rule pow2_pos)
    have "x / ?u \<le> y / ?u" using xy u by (simp add: divide_right_mono)
    then have "round_to_even (x / ?u) \<le> round_to_even (y / ?u)" by (rule round_to_even_mono)
    then have "(of_int (round_to_even (x / ?u)) :: rat) \<le> of_int (round_to_even (y / ?u))"
      by simp
    then have "of_int (round_to_even (x / ?u)) * ?u \<le> of_int (round_to_even (y / ?u)) * ?u"
      using u by (simp add: mult_right_mono)
    then show ?thesis
      using round53_normal(1) [OF x nx] round53_normal(1) [OF y ny] True by simp
  next
    case False
    with exy have "?ex + 1 \<le> ?ey" by simp
    then have "(2 :: rat) powi (?ex + 1) \<le> 2 powi ?ey" by (simp only: pow2_le_iff)
    then show ?thesis
      using round53_normal(3) [OF x nx] round53_normal(2) [OF y ny] by simp
  qed
qed

lemma fl_Finite:
  assumes lo: "2 powi a \<le> x" and hi: "x \<le> 2 powi b" and n: "- 1022 \<le> a" and m: "b \<le> 1023"
  shows "fl x = Finite (round53 x)"
proof -
  have r: "2 powi a \<le> round53 x" "round53 x \<le> 2 powi b"
    using round53_bounds [OF lo hi n] by simp_all
  have "(2 :: rat) powi b < 2 powi 1024" using m by (simp only: pow2_less_iff)
  then have "round53 x < 2 ^ 1024" using r(2) by simp
  moreover have "0 < round53 x" by (rule less_le_trans [OF pow2_pos r(1)])
  ultimately show ?thesis by (simp add: fl_def Let_def)
qed

text \<open>Evaluation: the binade of the argument given, the rounding is one integer rounding.\<close>

lemma round53_binade:
  assumes lo: "2 powi e \<le> x" and hi: "x < 2 powi (e + 1)" and n: "- 1022 \<le> e"
  shows "round53 x = of_int (round_to_even (x / 2 powi (e - 52))) * 2 powi (e - 52)"
proof -
  have x: "0 < x" by (rule less_le_trans [OF pow2_pos lo])
  have 1: "e \<le> floor_log2 x" using x lo by (rule floor_log2_ge)
  have "(2 :: rat) powi floor_log2 x < 2 powi (e + 1)"
    using floor_log2_bounds(1) [OF x] hi by simp
  then have "floor_log2 x < e + 1" by (simp only: pow2_less_iff)
  with 1 have e: "floor_log2 x = e" by simp
  show ?thesis using round53_normal(1) [OF x] n by (simp add: e)
qed

lemma floor_numeral_quotient:
  "\<lfloor>numeral a / numeral b :: rat\<rfloor> = numeral a div numeral b"
  using floor_divide_of_int_eq [of "numeral a" "numeral b", where ?'a = rat] by simp

lemmas round53_eval = round_to_even_def Let_def floor_numeral_quotient

lemma binade_range_pos: "binade_range a b x \<Longrightarrow> 0 < x"
proof -
  assume "binade_range a b x"
  then have "2 powi a \<le> x" by (simp add: binade_range_def)
  then show ?thesis by (rule less_le_trans [OF pow2_pos])
qed

lemma binade_range_weaken:
  "binade_range a b x \<Longrightarrow> a' \<le> a \<Longrightarrow> b \<le> b' \<Longrightarrow> binade_range a' b' x"
  unfolding binade_range_def
  using pow2_le_iff [of a' a] pow2_le_iff [of b b'] by auto

lemma binade_range_round53:
  "binade_range a b x \<Longrightarrow> - 1022 \<le> a \<Longrightarrow> binade_range a b (round53 x)"
  unfolding binade_range_def using round53_bounds [of a x b] by simp

lemma binade_range_fl:
  "binade_range a b x \<Longrightarrow> - 1022 \<le> a \<Longrightarrow> b \<le> 1023 \<Longrightarrow> fl x = Finite (round53 x)"
  unfolding binade_range_def using fl_Finite [of a x b] by simp

lemma binade_range_mult:
  assumes "binade_range a b x" and "binade_range c d y"
  shows "binade_range (a + c) (b + d) (x * y)"
proof -
  have x: "0 < x" and y: "0 < y" using assms by (auto dest: binade_range_pos)
  have 1: "(2 :: rat) powi (a + c) = 2 powi a * 2 powi c" by (rule power_int_add) simp
  have 2: "(2 :: rat) powi (b + d) = 2 powi b * 2 powi d" by (rule power_int_add) simp
  have pa: "0 \<le> (2 :: rat) powi a" and pc: "0 \<le> (2 :: rat) powi c"
    by (rule less_imp_le [OF pow2_pos])+
  have lx: "2 powi a \<le> x" and ux: "x \<le> 2 powi b" and ly: "2 powi c \<le> y" and uy: "y \<le> 2 powi d"
    using assms by (simp_all add: binade_range_def)
  have "2 powi a * 2 powi c \<le> x * y"
    using lx ly pa pc by (rule mult_mono') 
  moreover have "x * y \<le> 2 powi b * 2 powi d"
    using ux uy less_imp_le [OF x] less_imp_le [OF y] by (rule mult_mono')
  ultimately show ?thesis by (simp add: binade_range_def 1 2)
qed

lemma binade_range_inverse:
  assumes "binade_range c d y"
  shows "binade_range (- d) (- c) (1 / y)"
proof -
  have y: "0 < y" using assms by (rule binade_range_pos)
  have ly: "2 powi c \<le> y" and uy: "y \<le> 2 powi d"
    using assms by (simp_all add: binade_range_def)
  have "1 / 2 powi d \<le> 1 / y" using y uy by (intro frac_le) simp_all
  moreover have "1 / y \<le> 1 / 2 powi c" using pow2_pos [of c] ly by (intro frac_le) simp_all
  ultimately show ?thesis by (simp add: binade_range_def power_int_minus_divide)
qed

lemma binade_range_divide:
  assumes "binade_range a b x" and "binade_range c d y"
  shows "binade_range (a - d) (b - c) (x / y)"
  using binade_range_mult [OF assms(1) binade_range_inverse [OF assms(2)]] by simp

lemma double_div_Finite:
  "x \<noteq> 0 \<Longrightarrow> y \<noteq> 0 \<Longrightarrow> double_div (Finite x) (Finite y) = fl (x / y)"
  by (simp add: double_div_def)

lemma double_mul_Finite:
  "x \<noteq> 0 \<Longrightarrow> y \<noteq> 0 \<Longrightarrow> double_mul (Finite x) (Finite y) = fl (x * y)"
  by (simp add: double_mul_def)

lemma double_gt_Finite: "double_gt (Finite x) (Finite y) = (y < x)"
  by (simp add: double_gt_def)

lemma double_to_int_Finite:
  assumes "0 \<le> x" and "x \<le> 10000"
  shows "double_to_int (Finite x) = Some \<lfloor>x\<rfloor>" and "0 \<le> \<lfloor>x\<rfloor>" and "\<lfloor>x\<rfloor> \<le> 10000"
proof -
  show 0: "0 \<le> \<lfloor>x\<rfloor>" using assms(1) by simp
  have "\<lfloor>x\<rfloor> \<le> \<lfloor>10000 :: rat\<rfloor>" using assms(2) by (rule floor_mono)
  then show 1: "\<lfloor>x\<rfloor> \<le> 10000" by simp
  show "double_to_int (Finite x) = Some \<lfloor>x\<rfloor>"
    using assms(1) 0 1 by (simp add: double_to_int_def trunc_def)
qed

lemma double_constant_ranges:
  "binade_range 13 14 10000" "binade_range 19 20 1000000" "binade_range 0 0 1"
  "binade_range (- 30) (- 29) (1 / 10 ^ 9)"
  by (simp_all add: binade_range_def)

lemma double_constants:
  "round53 10000 = 10000" "round53 1000000 = 1000000" "round53 1 = 1"
  by (simp add: round53_binade [where e = 13] round53_eval,
      simp add: round53_binade [where e = 19] round53_eval,
      simp add: round53_binade [where e = 0] round53_eval)

lemma fl_constants:
  "fl 10000 = Finite 10000" "fl 1000000 = Finite 1000000" "fl 1 = Finite 1"
  "fl (1 / 10 ^ 9) = Finite (round53 (1 / 10 ^ 9))"
  using double_constant_ranges [THEN binade_range_fl] by (simp_all add: double_constants)

lemma positive_qint64:
  fixes w :: "64 word"
  assumes "0 <s w"
  shows "binade_range 0 63 (of_int (sint w))"
proof -
  have "0 < sint w" using assms by (simp add: word_sless_alt)
  then have "(1 :: rat) \<le> of_int (sint w)" by (metis int_one_le_iff_zero_less of_int_1 of_int_le_iff)
  moreover have "sint w < 2 ^ 63" using sint_lt [of w] by simp
  then have "(of_int (sint w) :: rat) \<le> 2 ^ 63"
    by (metis less_imp_le of_int_le_iff of_int_numeral of_int_power)
  ultimately show ?thesis by (simp add: binade_range_def)
qed

lemma fixed2_no_percent: "CHR ''%'' \<notin> set (fixed2 a)"
  by (simp add: fixed2_def Let_def toDecimal_no_percent two_digits_no_percent)

text \<open>
  The values the handler computes from a positive count below the total, after a positive
  time.
\<close>

lemma uploadProgress_values:
  fixes bytesSent bytesTotal nsecsElapsed :: "64 word"
  assumes s: "0 <s bytesSent" and t: "bytesSent <s bytesTotal" and n: "0 <s nsecsElapsed"
  defines "sentD \<equiv> round53 (of_int (sint bytesSent))"
    and "totalD \<equiv> round53 (of_int (sint bytesTotal))"
  defines "sentMB \<equiv> round53 (sentD / 1000000)" and "totalMB \<equiv> round53 (totalD / 1000000)"
    and "secondsElapsed \<equiv> round53 (round53 (of_int (sint nsecsElapsed)) * round53 (1 / 10 ^ 9))"
  defines "speedMBS \<equiv> round53 (sentMB / secondsElapsed)"
    and "product \<equiv> round53 (10000 * round53 (sentD / totalD))"
  shows "fl (of_int (sint bytesSent)) = Finite sentD"
    and "fl (of_int (sint bytesTotal)) = Finite totalD"
    and "double_div (Finite sentD) (Finite totalD) = Finite (round53 (sentD / totalD))"
    and "double_mul (Finite 10000) (Finite (round53 (sentD / totalD))) = Finite product"
    and "0 \<le> product" and "product \<le> 10000"
    and "double_div (Finite sentD) (Finite 1000000) = Finite sentMB"
    and "double_div (Finite totalD) (Finite 1000000) = Finite totalMB"
    and "double_mul (fl (of_int (sint nsecsElapsed))) (Finite (round53 (1 / 10 ^ 9))) =
           Finite secondsElapsed"
    and "double_div (Finite sentMB) (Finite secondsElapsed) = Finite speedMBS"
proof -
  have t0: "0 <s bytesTotal" using s t by (simp add: word_sless_alt)
  have rs: "binade_range 0 63 (of_int (sint bytesSent))" using s by (rule positive_qint64)
  have rt: "binade_range 0 63 (of_int (sint bytesTotal))" using t0 by (rule positive_qint64)
  have rn: "binade_range 0 63 (of_int (sint nsecsElapsed))" using n by (rule positive_qint64)
  show fs: "fl (of_int (sint bytesSent)) = Finite sentD"
    unfolding sentD_def using rs by (rule binade_range_fl) simp_all
  show ft: "fl (of_int (sint bytesTotal)) = Finite totalD"
    unfolding totalD_def using rt by (rule binade_range_fl) simp_all
  have fn: "fl (of_int (sint nsecsElapsed)) = Finite (round53 (of_int (sint nsecsElapsed)))"
    using rn by (rule binade_range_fl) simp_all
  have s1: "binade_range 0 63 sentD" unfolding sentD_def using rs by (rule binade_range_round53) simp
  have t1: "binade_range 0 63 totalD" unfolding totalD_def using rt by (rule binade_range_round53) simp
  have n1: "binade_range 0 63 (round53 (of_int (sint nsecsElapsed)))"
    using rn by (rule binade_range_round53) simp
  have sp: "0 < sentD" and tp: "0 < totalD" using s1 t1 by (auto dest: binade_range_pos)
  have "sint bytesSent \<le> sint bytesTotal" using t by (simp add: word_sless_alt)
  then have "(of_int (sint bytesSent) :: rat) \<le> of_int (sint bytesTotal)"
    by (simp only: of_int_le_iff)
  moreover have "(2 :: rat) powi (- 1022) \<le> of_int (sint bytesSent)"
    using binade_range_weaken [OF rs, of "- 1022" 63] by (simp add: binade_range_def del: of_int_sint)
  ultimately have st: "sentD \<le> totalD" unfolding sentD_def totalD_def by (rule round53_mono [rotated])
  txt \<open>the quotient and the bar\<close>
  have q0: "binade_range (- 63) 63 (sentD / totalD)"
    using binade_range_divide [OF s1 t1] by simp
  have "sentD / totalD \<le> 1" using st tp by simp
  then have q1: "binade_range (- 63) 0 (sentD / totalD)" using q0 by (simp add: binade_range_def)
  have fq: "fl (sentD / totalD) = Finite (round53 (sentD / totalD))"
    using q1 by (rule binade_range_fl) simp_all
  have q2: "binade_range (- 63) 0 (round53 (sentD / totalD))"
    using q1 by (rule binade_range_round53) simp
  show "double_div (Finite sentD) (Finite totalD) = Finite (round53 (sentD / totalD))"
    using sp tp by (simp add: double_div_Finite fq)
  have qp: "0 < round53 (sentD / totalD)" using q2 by (rule binade_range_pos)
  have p0: "binade_range (- 50) 14 (10000 * round53 (sentD / totalD))"
    using binade_range_mult [OF double_constant_ranges(1) q2] by simp
  have fp: "fl (10000 * round53 (sentD / totalD)) = Finite product"
    unfolding product_def using p0 by (rule binade_range_fl) simp_all
  show "double_mul (Finite 10000) (Finite (round53 (sentD / totalD))) = Finite product"
    using qp by (simp add: double_mul_Finite fp)
  have "binade_range (- 50) 14 product"
    unfolding product_def using p0 by (rule binade_range_round53) simp
  then show "0 \<le> product" by (auto dest: binade_range_pos intro: less_imp_le)
  have "round53 (sentD / totalD) \<le> 1" using q2 by (simp add: binade_range_def)
  then have "10000 * round53 (sentD / totalD) \<le> 10000" by simp
  moreover have "(2 :: rat) powi (- 1022) \<le> 10000 * round53 (sentD / totalD)"
    using binade_range_weaken [OF p0, of "- 1022" 14] by (simp add: binade_range_def)
  ultimately have "product \<le> round53 10000" unfolding product_def by (rule round53_mono [rotated])
  then show "product \<le> 10000" by (simp add: double_constants)
  txt \<open>the sizes, the time and the speed\<close>
  have m0: "binade_range (- 20) 44 (sentD / 1000000)"
    using binade_range_divide [OF s1 double_constant_ranges(2)] by simp
  have m1: "binade_range (- 20) 44 sentMB"
    unfolding sentMB_def using m0 by (rule binade_range_round53) simp
  have "fl (sentD / 1000000) = Finite sentMB"
    unfolding sentMB_def using m0 by (rule binade_range_fl) simp_all
  then show "double_div (Finite sentD) (Finite 1000000) = Finite sentMB"
    using sp by (simp add: double_div_Finite)
  have "binade_range (- 20) 44 (totalD / 1000000)"
    using binade_range_divide [OF t1 double_constant_ranges(2)] by simp
  then have "fl (totalD / 1000000) = Finite totalMB"
    unfolding totalMB_def by (rule binade_range_fl) simp_all
  then show "double_div (Finite totalD) (Finite 1000000) = Finite totalMB"
    using tp by (simp add: double_div_Finite)
  have c1: "binade_range (- 30) (- 29) (round53 (1 / 10 ^ 9))"
    using double_constant_ranges(4) by (rule binade_range_round53) simp
  have e0: "binade_range (- 30) 34
      (round53 (of_int (sint nsecsElapsed)) * round53 (1 / 10 ^ 9))"
    using binade_range_mult [OF n1 c1] by simp
  have e1: "binade_range (- 30) 34 secondsElapsed"
    unfolding secondsElapsed_def using e0 by (rule binade_range_round53) simp
  have "fl (round53 (of_int (sint nsecsElapsed)) * round53 (1 / 10 ^ 9)) = Finite secondsElapsed"
    unfolding secondsElapsed_def using e0 by (rule binade_range_fl) simp_all
  then show "double_mul (fl (of_int (sint nsecsElapsed))) (Finite (round53 (1 / 10 ^ 9))) =
      Finite secondsElapsed"
    using binade_range_pos [OF n1] binade_range_pos [OF c1]
    by (simp add: fn double_mul_Finite del: of_int_sint)
  have v0: "binade_range (- 54) 74 (sentMB / secondsElapsed)"
    using binade_range_divide [OF m1 e1] by simp
  then have "fl (sentMB / secondsElapsed) = Finite speedMBS"
    unfolding speedMBS_def by (rule binade_range_fl) simp_all
  then show "double_div (Finite sentMB) (Finite secondsElapsed) = Finite speedMBS"
    using binade_range_pos [OF m1] binade_range_pos [OF e1] by (simp add: double_div_Finite)
qed

lemma uploadProgress_bar:
  fixes bytesSent bytesTotal :: "64 word"
  assumes s: "0 <s bytesSent" and t: "bytesSent <s bytesTotal"
  shows "progressBar_value
           (ui (uploadProgress (ieee_double arg_fixed iu qu) bytesSent bytesTotal nsecsElapsed d)) =
         \<lfloor>round53 (10000 *
            round53 (round53 (of_int (sint bytesSent)) / round53 (of_int (sint bytesTotal))))\<rfloor>"
    and "0 \<le> \<lfloor>round53 (10000 *
            round53 (round53 (of_int (sint bytesSent)) / round53 (of_int (sint bytesTotal))))\<rfloor>"
    and "\<lfloor>round53 (10000 *
            round53 (round53 (of_int (sint bytesSent)) / round53 (of_int (sint bytesTotal))))\<rfloor>
         \<le> 10000"
proof -
  have one: "(0 :: 64 word) <s 1" by (simp add: word_sless_alt)
  note v = uploadProgress_values [OF s t one]
  note c = double_to_int_Finite [OF v(5) v(6)]
  have t0: "0 <s bytesTotal" using s t by (simp add: word_sless_alt)
  have conv: "double_to_int (double_mul (fl 10000)
           (double_div (fl (of_int (sint bytesSent))) (fl (of_int (sint bytesTotal))))) =
         Some \<lfloor>round53 (10000 *
            round53 (round53 (of_int (sint bytesSent)) / round53 (of_int (sint bytesTotal))))\<rfloor>"
    by (simp only: v(1) v(2) v(3) v(4) fl_constants c(1))
  show "progressBar_value
           (ui (uploadProgress (ieee_double arg_fixed iu qu) bytesSent bytesTotal nsecsElapsed d)) =
         \<lfloor>round53 (10000 *
            round53 (round53 (of_int (sint bytesSent)) / round53 (of_int (sint bytesTotal))))\<rfloor>"
    using t0 t conv by (simp add: uploadProgress_def Let_def ieee_double_def del: of_int_sint)
  show "0 \<le> \<lfloor>round53 (10000 *
            round53 (round53 (of_int (sint bytesSent)) / round53 (of_int (sint bytesTotal))))\<rfloor>"
    by (rule c(2))
  show "\<lfloor>round53 (10000 *
            round53 (round53 (of_int (sint bytesSent)) / round53 (of_int (sint bytesTotal))))\<rfloor>
         \<le> 10000"
    by (rule c(3))
qed


section \<open>C3: the upload progress\<close>

lemma fl_binade:
  assumes lo: "2 powi e \<le> x" and hi: "x < 2 powi (e + 1)" and n: "- 1022 \<le> e"
    and m: "e \<le> 1022"
  shows "fl x = Finite (of_int (round_to_even (x / 2 powi (e - 52))) * 2 powi (e - 52))"
proof -
  have "x \<le> 2 powi (e + 1)" using hi by simp
  from fl_Finite [OF lo this n] m have "fl x = Finite (round53 x)" by simp
  then show ?thesis by (simp only: round53_binade [OF lo hi n])
qed

lemma uploadProgress_seconds:
  fixes bytesSent bytesTotal nsecsElapsed :: "64 word"
  assumes s: "0 <s bytesSent" and t: "bytesSent <s bytesTotal" and n: "0 <s nsecsElapsed"
  shows "greater (ieee_double arg_fixed iu qu)
           (mul (ieee_double arg_fixed iu qu)
              (of_qint64 (ieee_double arg_fixed iu qu) nsecsElapsed)
              (d_1e_9 (ieee_double arg_fixed iu qu)))
           (d_1 (ieee_double arg_fixed iu qu)) =
         (1 < round53 (round53 (of_int (sint nsecsElapsed)) * round53 (1 / 10 ^ 9)))"
proof -
  note v = uploadProgress_values [OF s t n]
  show ?thesis
    by (simp only: ieee_double_def DoubleOps.simps fl_constants v(9) double_gt_Finite)
qed

text \<open>
  C3. For a progress signal with 0 < sent < total and a positive timer reading, in the
  arithmetic of doubles (every conversion, quotient and product rounded to the nearest
  double): the bar is set to the integer part of the double product of 10000.0 and the
  double quotient of sent by total, which lies between 0 and 10000; the text is left as
  it was unless the double product of the nanoseconds and 1.0e-9 is greater than 1.0;
  and then the text shows the sizes in MB, the remaining time and the speed, the speed
  being the double quotient of sent / 1000000.0 by the elapsed seconds, written with two
  decimals.
\<close>

theorem uploadProgress_ieee:
  fixes bytesSent bytesTotal nsecsElapsed :: "64 word"
  assumes "0 <s bytesSent" and "bytesSent <s bytesTotal" and "0 <s nsecsElapsed"
    and "\<And>x. CHR ''%'' \<notin> set (arg_fixed x)"
  shows
    "(let F = ieee_double arg_fixed int_undefined qulonglong_undefined;
          d' = uploadProgress F bytesSent bytesTotal nsecsElapsed d;
          sentD = round53 (of_int (sint bytesSent));
          totalD = round53 (of_int (sint bytesTotal));
          bar = \<lfloor>round53 (10000 * round53 (sentD / totalD))\<rfloor>;
          sentMB = round53 (sentD / 1000000);
          totalMB = round53 (totalD / 1000000);
          secondsElapsed =
            round53 (round53 (of_int (sint nsecsElapsed)) * round53 (1 / 10 ^ 9));
          speedMBS = round53 (sentMB / secondsElapsed);
          secondsRemaining =
            to_qulonglong F
              (double_div (double_sub (Finite totalMB) (Finite sentMB)) (Finite speedMBS))
      in progressBar_value (ui d') = bar \<and> 0 \<le> bar \<and> bar \<le> 10000 \<and>
         progressText_text (ui d') =
           (if 1 < secondsElapsed then
              ''Uploading report...\<newline>'' @ arg_fixed (Finite sentMB) @ '' MB / '' @
              arg_fixed (Finite totalMB) @ '' MB. '' @ remainString secondsRemaining @
              '' remaining ('' @ arg_fixed (Finite speedMBS) @ '' MB/s)''
            else progressText_text (ui d)))"
proof -
  let ?F = "ieee_double arg_fixed int_undefined qulonglong_undefined"
  let ?secondsElapsed = "round53 (round53 (of_int (sint nsecsElapsed)) * round53 (1 / 10 ^ 9))"
  note v = uploadProgress_values [OF assms(1-3)]
  note b = uploadProgress_bar(1) [where arg_fixed = arg_fixed and iu = int_undefined and
      qu = qulonglong_undefined and nsecsElapsed = nsecsElapsed and d = d, OF assms(1,2)]
    uploadProgress_bar(2,3) [OF assms(1,2)]
  note g = uploadProgress_seconds [where arg_fixed = arg_fixed and iu = int_undefined and
      qu = qulonglong_undefined, OF assms(1-3)]
  have t0: "0 <s bytesTotal" using assms(1,2) by (simp add: word_sless_alt)
  have p: "CHR ''%'' \<notin> set (number_f2 ?F x)" for x
    using assms(4) by (simp add: ieee_double_def)
  have tx: "progressText_text (ui (uploadProgress ?F bytesSent bytesTotal nsecsElapsed d)) =
      (if 1 < ?secondsElapsed then
         ''Uploading report...\<newline>'' @
         arg_fixed (Finite (round53 (round53 (of_int (sint bytesSent)) / 1000000))) @
         '' MB / '' @
         arg_fixed (Finite (round53 (round53 (of_int (sint bytesTotal)) / 1000000))) @
         '' MB. '' @
         remainString (to_qulonglong ?F
           (double_div
              (double_sub (Finite (round53 (round53 (of_int (sint bytesTotal)) / 1000000)))
                 (Finite (round53 (round53 (of_int (sint bytesSent)) / 1000000))))
              (Finite (round53 (round53 (round53 (of_int (sint bytesSent)) / 1000000) /
                 ?secondsElapsed))))) @
         '' remaining ('' @
         arg_fixed (Finite (round53 (round53 (round53 (of_int (sint bytesSent)) / 1000000) /
           ?secondsElapsed))) @
         '' MB/s)''
       else progressText_text (ui d))"
  proof (cases "1 < ?secondsElapsed")
    case True
    then have gt: "greater ?F (mul ?F (of_qint64 ?F nsecsElapsed) (d_1e_9 ?F)) (d_1 ?F)"
      by (simp only: g)
    show ?thesis
      unfolding uploadProgress_text [OF t0 assms(2) gt p]
      using True
      by (simp only: ieee_double_def DoubleOps.simps fl_constants v if_True)
  next
    case False
    then have "\<not> greater ?F (mul ?F (of_qint64 ?F nsecsElapsed) (d_1e_9 ?F)) (d_1 ?F)"
      by (simp only: g simp_thms)
    then show ?thesis using False by (simp add: uploadProgress_warm_up del: of_int_sint)
  qed
  show ?thesis
    unfolding Let_def using b tx by (simp only: simp_thms)
qed


lemma example_progress_signed:
  "(0 :: 64 word) <s 1500000" "(1500000 :: 64 word) <s 10000000"
  "(0 :: 64 word) <s 2000000000" "(0 :: 64 word) <s 57" "(57 :: 64 word) <s 100"
  by (simp_all add: word_sless_alt)

lemma example_progress_bar:
  "\<lfloor>round53 (10000 *
      round53 (round53 (of_int (sint (1500000 :: 64 word))) /
        round53 (of_int (sint (10000000 :: 64 word)))))\<rfloor> = 1500"
  by (simp add: round53_binade [where e = 20] round53_binade [where e = 23]
      round53_binade [where e = "- 3"] round53_binade [where e = 10] round53_eval)

lemma example_progress_sizes:
  "round53 (round53 (of_int (sint (1500000 :: 64 word))) / 1000000) = 3 / 2"
  "round53 (round53 (of_int (sint (10000000 :: 64 word))) / 1000000) = 10"
  by (simp_all add: round53_binade [where e = 20] round53_binade [where e = 23]
      round53_binade [where e = 0] round53_binade [where e = 3] round53_eval)

lemma example_progress_seconds:
  "round53 (round53 (of_int (sint (2000000000 :: 64 word))) * round53 (1 / 10 ^ 9)) = 2"
  by (simp add: round53_binade [where e = 30] round53_binade [where e = "- 30"]
      round53_binade [where e = 1] round53_eval)

lemma example_progress_speed: "round53 (3 / 2 / 2) = 3 / 4"
  by (simp add: round53_binade [where e = "- 1"] round53_eval)

lemma example_progress_remaining:
  "double_to_qulonglong (double_div (double_sub (Finite 10) (Finite (3 / 2))) (Finite (3 / 4))) =
     Some 11"
proof -
  have "double_sub (Finite 10) (Finite (3 / 2)) = Finite (17 / 2)"
    by (simp add: double_sub_def fl_binade [where e = 3] round53_eval)
  moreover have "double_div (Finite (17 / 2)) (Finite (3 / 4)) =
      Finite (6380099472108203 / 562949953421312)"
    by (simp add: double_div_def fl_binade [where e = 3] round53_eval)
  ultimately show ?thesis
    by (simp add: double_to_qulonglong_def trunc_def Let_def floor_numeral_quotient)
qed

lemma example_progress_texts:
  "fixed2 (Finite (3 / 2)) = ''1.50''" "fixed2 (Finite 10) = ''10.00''"
  "fixed2 (Finite (3 / 4)) = ''0.75''" "remainString 11 = ''11 seconds''"
  by (simp_all add: fixed2_def Let_def two_digits_def format_eval floor_numeral_quotient)

theorem uploadProgress_ieee_witness:
  "(0 :: 64 word) <s 1500000 \<and> (1500000 :: 64 word) <s 10000000 \<and>
   (0 :: 64 word) <s 2000000000 \<and>
   progressBar_value
     (ui (uploadProgress example_double 1500000 10000000 2000000000 example_uploading)) = 1500 \<and>
   progressText_text
     (ui (uploadProgress example_double 1500000 10000000 2000000000 example_uploading)) =
     ''Uploading report...\<newline>1.50 MB / 10.00 MB. 11 seconds remaining (0.75 MB/s)''"
proof -
  note h = example_progress_signed
  note u = uploadProgress_ieee [where arg_fixed = fixed2 and int_undefined = "\<lambda>x. 0" and
      qulonglong_undefined = "\<lambda>x. 0" and d = example_uploading,
      OF h(1) h(2) h(3) fixed2_no_percent]
  have q: "to_qulonglong (ieee_double fixed2 (\<lambda>x. 0) (\<lambda>x. 0))
      (double_div (double_sub (Finite 10) (Finite (3 / 2))) (Finite (3 / 4))) = 11"
    by (simp add: ieee_double_def example_progress_remaining)
  show ?thesis
    using u unfolding Let_def example_progress_bar example_progress_sizes
      example_progress_seconds example_progress_speed q example_progress_texts
    by (simp add: h example_double_def)
qed

text \<open>
  Read over exact numbers the bar is not what the handler sets: with 57 of 100 bytes
  sent the double quotient is just below 57 / 100, the double product just below 5700,
  and the bar is 5699.
\<close>

theorem uploadProgress_bar_counterexample:
  "(0 :: 64 word) <s 57 \<and> (57 :: 64 word) <s 100 \<and> (0 :: 64 word) <s 2000000000 \<and>
   progressBar_value
     (ui (uploadProgress example_double 57 100 2000000000 example_uploading)) = 5699 \<and>
   \<lfloor>(10000 :: rat) * (57 / 100)\<rfloor> = 5700"
proof -
  note h = example_progress_signed
  have "\<lfloor>round53 (10000 *
      round53 (round53 (of_int (sint (57 :: 64 word))) /
        round53 (of_int (sint (100 :: 64 word)))))\<rfloor> = 5699"
    by (simp add: round53_binade [where e = 5] round53_binade [where e = 6]
        round53_binade [where e = "- 1"] round53_binade [where e = 12] round53_eval)
  then show ?thesis
    using uploadProgress_bar(1) [where arg_fixed = fixed2 and iu = "\<lambda>x. 0" and
        qu = "\<lambda>x. 0" and nsecsElapsed = 2000000000 and d = example_uploading, OF h(4) h(5)]
    by (simp add: h example_double_def)
qed


section \<open>C4: the stage machine\<close>

lemma run_0: "run F E d evs ! 0 = d"
  by (cases evs) simp_all

lemma run_steps:
  assumes "stage_inv d" and "i < length evs"
  shows "stage_step (m_Stage (run F E d evs ! i)) (m_Stage (run F E d evs ! Suc i)) \<and>
         close_confirmed (evs ! i) (run F E d evs ! i) (run F E d evs ! Suc i)"
  using assms
proof (induction evs arbitrary: d i)
  case Nil
  then show ?case by simp
next
  case (Cons ev evs)
  let ?d1 = "case fire F E ev d of None \<Rightarrow> d | Some d' \<Rightarrow> d'"
  have step: "stage_step (m_Stage d) (m_Stage ?d1) \<and> close_confirmed ev d ?d1 \<and> stage_inv ?d1"
  proof (cases "fire F E ev d")
    case None
    then show ?thesis using Cons.prems(1)
      by (simp add: stage_step_def close_confirmed_same)
  next
    case (Some d')
    then show ?thesis using fire_step [OF Cons.prems(1) Some] by simp
  qed
  show ?case
  proof (cases i)
    case 0
    then show ?thesis using step by (simp add: run_0)
  next
    case (Suc j)
    with Cons.prems(2) have j: "j < length evs" by simp
    from step have inv1: "stage_inv ?d1" by simp
    show ?thesis using Cons.IH [OF inv1 j] by (simp add: Suc)
  qed
qed

text \<open>
  C4. Along every sequence of events, from the state the constructor leaves: the dialog
  starts in \<open>FillingDetails\<close>; each event leaves the stage where it is or moves it one
  step along \<open>FillingDetails\<close>, \<open>Uploading\<close>, \<open>Reported\<close> (a retry stays in
  \<open>Uploading\<close>); and an event that closes the dialog while it is open in \<open>Uploading\<close> is
  the cancel-upload button with the confirmation answered yes, or the Escape key or close
  button of the window, which \<^verbatim>\<open>QDialog\<close> turns into \<^verbatim>\<open>reject()\<close> with no question
  asked. The events are the edits, the five buttons, the three signals of the reply and
  that close request.
\<close>

theorem stage_machine:
  assumes "ds = run F E (CrashDialog_new E setupUi cfg crashReportJSON) evs"
    and "i < length evs"
  shows "m_Stage (ds ! 0) = FillingDetails \<and>
         stage_step (m_Stage (ds ! i)) (m_Stage (ds ! Suc i)) \<and>
         (m_Stage (ds ! i) = Uploading \<and> result (ds ! i) = None \<and> result (ds ! Suc i) \<noteq> None
            \<longrightarrow> evs ! i = UploadCancelClicked Yes \<or> evs ! i = CloseRequested)"
proof -
  have "m_Stage (CrashDialog_new E setupUi cfg crashReportJSON) = FillingDetails"
    by (simp add: CrashDialog_new_def Let_def setStage_def)
  then show ?thesis
    using run_steps [where F = F and E = E and evs = evs and i = i and
        d = "CrashDialog_new E setupUi cfg crashReportJSON", OF CrashDialog_new_inv assms(2)]
    by (auto simp add: assms(1) run_0 close_confirmed_def)
qed

lemma example_run_eval:
  "map m_Stage (run example_double example_env example_dialog example_events) =
     [FillingDetails, FillingDetails, FillingDetails, FillingDetails, Uploading, Uploading,
      Uploading, Uploading, Uploading, Uploading, Reported, Reported, Reported]"
  "map result (run example_double example_env example_dialog example_cancel_events) =
     [None, None, None, Some Rejected]"
  "map m_Stage (run example_double example_env example_dialog example_cancel_events) =
     [FillingDetails, Uploading, Uploading, Uploading]"
  "map result (run example_double example_env example_dialog example_close_events) =
     [None, None, Some Rejected]"
  "map m_Stage (run example_double example_env example_dialog example_close_events) =
     [FillingDetails, Uploading, Uploading]"
  by code_simp+

lemma length_run: "length (run F E d evs) = Suc (length evs)"
  by (induction evs arbitrary: d) simp_all

lemma nth_run:
  "i \<le> length evs \<Longrightarrow> f (run F E d evs ! i) = map f (run F E d evs) ! i"
  by (simp add: length_run)

theorem stage_machine_witness:
  "9 < length example_events \<and>
   m_Stage (run example_double example_env example_dialog example_events ! 9) = Uploading \<and>
   m_Stage (run example_double example_env example_dialog example_events ! 10) = Reported \<and>
   stage_step Uploading Reported \<and>
   2 < length example_cancel_events \<and>
   m_Stage (run example_double example_env example_dialog example_cancel_events ! 2) = Uploading \<and>
   result (run example_double example_env example_dialog example_cancel_events ! 2) = None \<and>
   result (run example_double example_env example_dialog example_cancel_events ! 3) =
     Some Rejected \<and>
   example_cancel_events ! 2 = UploadCancelClicked Yes"
proof -
  have l: "9 < length example_events" "2 < length example_cancel_events"
    by (simp_all add: example_events_def example_cancel_events_def)
  have s: "m_Stage (run example_double example_env example_dialog example_events ! 9) = Uploading"
    "m_Stage (run example_double example_env example_dialog example_events ! 10) = Reported"
    using l(1) by (simp_all add: nth_run example_run_eval)
  have c: "m_Stage (run example_double example_env example_dialog example_cancel_events ! 2) = Uploading"
    "result (run example_double example_env example_dialog example_cancel_events ! 2) = None"
    "result (run example_double example_env example_dialog example_cancel_events ! 3) =
       Some Rejected"
    using l(2) by (simp_all add: nth_run example_run_eval)
  have e: "run example_double example_env example_dialog evs =
      run example_double example_env
        (CrashDialog_new example_env example_setupUi (example_config []) (example_json 1)) evs"
    for evs by (simp add: example_dialog_def)
  have n: "example_cancel_events ! 2 \<noteq> CloseRequested"
    by (simp add: example_cancel_events_def)
  show ?thesis
    using stage_machine [OF e l(1)] stage_machine [OF e l(2)] l n
    by (simp add: s c)
qed

text \<open>
  The close button of the window while the report uploads: the dialog, open in
  \<open>Uploading\<close>, is closed by an event that is not the cancel-upload button, and no
  confirmation was asked.
\<close>

theorem stage_machine_close_counterexample:
  "m_Stage (run example_double example_env example_dialog example_close_events ! 1) = Uploading \<and>
   result (run example_double example_env example_dialog example_close_events ! 1) = None \<and>
   result (run example_double example_env example_dialog example_close_events ! 2) =
     Some Rejected \<and>
   example_close_events ! 1 \<noteq> UploadCancelClicked Yes"
proof -
  have l: "1 < length example_close_events" by (simp add: example_close_events_def)
  have "m_Stage (run example_double example_env example_dialog example_close_events ! 1) = Uploading"
    "result (run example_double example_env example_dialog example_close_events ! 1) = None"
    "result (run example_double example_env example_dialog example_close_events ! 2) =
       Some Rejected"
    using l by (simp_all add: nth_run example_run_eval)
  then show ?thesis by (simp add: example_close_events_def)
qed


section \<open>C5: a network error\<close>

text \<open>
  C5. The handler of a network error sets the progress bar to 0, shows the error text,
  enables the retry button and changes nothing else, so the stage stays as it is; and
  the handler of \<open>finished\<close> changes nothing when it finds the retry button enabled, as
  it does after the error handler has run.
\<close>

theorem networkError_then_finished:
  "networkError errorString d =
     d\<lparr>ui := (ui d)\<lparr>progressBar_value := 0,
                     progressText_text := ''Network error uploading:\<newline>'' @ errorString,
                     uploadRetry_enabled := True\<rparr>\<rparr> \<and>
   progressBar_value (ui (networkError errorString d)) = 0 \<and>
   progressText_text (ui (networkError errorString d)) =
     ''Network error uploading:\<newline>'' @ errorString \<and>
   uploadRetry_enabled (ui (networkError errorString d)) \<and>
   m_Stage (networkError errorString d) = m_Stage d \<and>
   (uploadRetry_enabled (ui d) \<longrightarrow> finished E readAll d = d) \<and>
   finished E readAll (networkError errorString d) = networkError errorString d"
  by (simp add: networkError_def arg_network_error finished_def tr_def)

theorem networkError_then_finished_witness:
  "m_Stage (networkError ''timeout'' example_uploading) = Uploading \<and>
   uploadRetry_enabled (ui (networkError ''timeout'' example_uploading)) \<and>
   finished example_env ''abc123'' (networkError ''timeout'' example_uploading) =
     networkError ''timeout'' example_uploading \<and>
   m_ReportID (finished example_env ''abc123'' (networkError ''timeout'' example_uploading)) = []"
proof -
  have "m_ReportID (networkError ''timeout'' example_uploading) = []" by code_simp
  then show ?thesis
    using networkError_then_finished
      [of "''timeout''" example_uploading example_env "''abc123''"]
      networkError_then_finished
      [of "''timeout''" "networkError ''timeout'' example_uploading" example_env "''abc123''"]
    by (simp add: example_uploading_eval)
qed


section \<open>C6: the upload completes\<close>

text \<open>
  C6. When \<open>finished\<close> arrives and the retry button is not enabled, the response body
  becomes the report ID and the stage becomes \<open>Reported\<close>; the finished text is the
  thank-you message alone for an empty body, and for any other body the thank-you message
  followed by a link whose target and text are the URL built from that ID.
\<close>

theorem finished_reportID:
  assumes "\<not> uploadRetry_enabled (ui d)"
  shows
    \<open>m_ReportID (finished E readAll d) = readAll \<and>
     m_Stage (finished E readAll d) = Reported \<and>
     finishedText_text (ui (finished E readAll d)) =
       (if readAll = [] then ''<p>Your report has been uploaded, thank you for your help!</p>''
        else ''<p>Your report has been uploaded, thank you for your help!</p>'' @
             ''<p>The unique anonymous URL for your report is <a href="'' @
             URL (URL_pattern E) \<lparr>ID = readAll, SubmitDate = NullDateTime, CheckDate = NullDateTime\<rparr> @
             ''">'' @
             URL (URL_pattern E) \<lparr>ID = readAll, SubmitDate = NullDateTime, CheckDate = NullDateTime\<rparr> @
             ''</a>.</p>'')\<close>
  using assms
  by (simp add: finished_def Let_def fromUtf8_def setStage_def arg_url newBugReport_def tr_def)

theorem finished_reportID_witness:
  \<open>\<not> uploadRetry_enabled (ui example_uploading) \<and>
   m_Stage (finished example_env ''abc123'' example_uploading) = Reported \<and>
   finishedText_text (ui (finished example_env ''abc123'' example_uploading)) =
     ''<p>Your report has been uploaded, thank you for your help!</p>'' @
     ''<p>The unique anonymous URL for your report is '' @
     ''<a href="https://example.org/bugreporter/report/abc123">'' @
     ''https://example.org/bugreporter/report/abc123</a>.</p>'' \<and>
   finishedText_text (ui (finished example_env [] example_uploading)) =
     ''<p>Your report has been uploaded, thank you for your help!</p>''\<close>
proof -
  have r: "\<not> uploadRetry_enabled (ui example_uploading)" by (simp add: example_uploading_eval)
  have u: \<open>URL (URL_pattern example_env)
              \<lparr>ID = ''abc123'', SubmitDate = NullDateTime, CheckDate = NullDateTime\<rparr> =
            ''https://example.org/bugreporter/report/abc123''\<close>
    by code_simp
  show ?thesis
    using finished_reportID [OF r, of example_env "''abc123''"]
      finished_reportID [OF r, of example_env "[]"] r
    by (simp add: u)
qed


section \<open>C7: the parts of the upload\<close>

lemma sendReport_multiPart_request:
  "sendReport_multiPart (d\<lparr>m_Request := r\<rparr>) = sendReport_multiPart d"
  by (simp add: sendReport_multiPart_eq)

text \<open>
  C7. The body \<open>sendReport\<close> posts holds, in this order: one form part per metadata
  key, named by the key, with the value's string as body; an \<open>email\<close> part exactly if
  the email text is not empty; a \<open>description\<close> part exactly if the description is not
  empty; only if the capture file name is not empty and the capture-upload box is ticked,
  the capture part (\<open>application/x-renderdoc-capture\<close>, \<open>capture.rdc\<close>) and after it,
  if a thumbnail exists, the \<open>image/jpeg\<close> part \<open>thumb.jpg\<close>; and last the
  \<open>application/zip\<close> part \<open>report.zip\<close>.
\<close>

theorem sendReport_parts:
  \<open>m_Request (sendReport E d) =
     Some \<lparr>url = BUGREPORT_URL E, multiPart = sendReport_multiPart d, isRunning = True\<rparr> \<and>
   sendReport_multiPart d =
     map (\<lambda>key. form_part key (toString (valueOf (m_ReportMetadata d) key)))
       (keys (m_ReportMetadata d)) @
     (if email_text (ui d) \<noteq> [] then [form_part ''email'' (email_text (ui d))] else []) @
     (if description_text (ui d) \<noteq> [] then [form_part ''description'' (description_text (ui d))]
      else []) @
     (if m_CaptureFilename d \<noteq> [] \<and> captureUpload_checked (ui d) then
        file_part ''application/x-renderdoc-capture'' ''capture'' ''capture.rdc''
          (BodyDevice (m_CaptureFilename d)) #
        (case m_Thumbnail d of
           None \<Rightarrow> []
         | Some thumbnail \<Rightarrow> [file_part ''image/jpeg'' ''thumb'' ''thumb.jpg'' (Body (data thumbnail))])
      else []) @
     [file_part ''application/zip'' ''report'' ''report.zip'' (BodyDevice (m_ReportPath d))]\<close>
proof -
  have "m_Request (sendReport E d) =
      Some \<lparr>url = BUGREPORT_URL E, multiPart = sendReport_multiPart d, isRunning = True\<rparr>"
    by (simp add: sendReport_def Let_def sendReport_multiPart_request)
  then show ?thesis using sendReport_multiPart_eq [of d] by simp
qed


theorem sendReport_parts_witness:
  \<open>m_Request (sendReport example_env example_opted_in) =
     Some \<lparr>url = ''https://example.org/bugreporter'',
           multiPart =
             [form_part ''gpu'' ''Radeon'', form_part ''version'' ''1.0'',
              form_part ''email'' ''new@example.org'',
              file_part ''application/x-renderdoc-capture'' ''capture'' ''capture.rdc''
                (BodyDevice ''/captures/last.rdc''),
              file_part ''image/jpeg'' ''thumb'' ''thumb.jpg'' (Body ''thumb''),
              file_part ''application/zip'' ''report'' ''report.zip''
                (BodyDevice ''/tmp/report.zip'')],
           isRunning = True\<rparr> \<and>
   sendReport_multiPart example_dialog =
     [form_part ''gpu'' ''Radeon'', form_part ''version'' ''1.0'',
      form_part ''email'' ''old@example.org'',
      file_part ''application/zip'' ''report'' ''report.zip'' (BodyDevice ''/tmp/report.zip'')]\<close>
proof -
  have a: "m_ReportMetadata example_opted_in =
      [(''gpu'', \<lparr>toString = ''Radeon'', toUInt = 0\<rparr>),
       (''version'', \<lparr>toString = ''1.0'', toUInt = 1\<rparr>)]"
    "description_text (ui example_opted_in) = []"
    "m_CaptureFilename example_opted_in = ''/captures/last.rdc''"
    "m_Thumbnail example_opted_in = Some \<lparr>data = ''thumb'', width = 4, height = 3\<rparr>"
    "m_ReportPath example_opted_in = ''/tmp/report.zip''"
    by code_simp+
  have b: "m_ReportMetadata example_dialog =
      [(''gpu'', \<lparr>toString = ''Radeon'', toUInt = 0\<rparr>),
       (''version'', \<lparr>toString = ''1.0'', toUInt = 1\<rparr>)]"
    "description_text (ui example_dialog) = []"
    "email_text (ui example_dialog) = ''old@example.org''"
    "\<not> captureUpload_checked (ui example_dialog)"
    "m_ReportPath example_dialog = ''/tmp/report.zip''"
    by code_simp+
  show ?thesis
    using sendReport_parts [of example_env example_opted_in]
      sendReport_parts [of example_env example_dialog]
    by (simp add: a b example_opted_in_eval keys_def valueOf_def example_env_def)
qed

section \<open>C8: the capture upload is declined\<close>

text \<open>
  C8. When the capture-upload box is ticked and the confirmation is answered with
  anything but yes, \<open>on_send_clicked\<close> unticks the box and returns: the stage, the
  configuration, what has been saved and the request are as before.
\<close>

theorem on_send_clicked_declined:
  assumes "captureUpload_checked (ui d)" and "captureAnswer \<noteq> Yes"
  shows
    "on_send_clicked E captureAnswer emailAnswer d = d\<lparr>ui := (ui d)\<lparr>captureUpload_checked := False\<rparr>\<rparr> \<and>
     \<not> captureUpload_checked (ui (on_send_clicked E captureAnswer emailAnswer d)) \<and>
     m_Stage (on_send_clicked E captureAnswer emailAnswer d) = m_Stage d \<and>
     m_Config (on_send_clicked E captureAnswer emailAnswer d) = m_Config d \<and>
     saved (on_send_clicked E captureAnswer emailAnswer d) = saved d \<and>
     m_Request (on_send_clicked E captureAnswer emailAnswer d) = m_Request d"
  using assms by (simp add: on_send_clicked_def)

theorem on_send_clicked_declined_witness:
  "captureUpload_checked (ui example_opted_in) \<and> No \<noteq> Yes \<and>
   \<not> captureUpload_checked (ui (on_send_clicked example_env No No example_opted_in)) \<and>
   m_Stage (on_send_clicked example_env No No example_opted_in) = FillingDetails \<and>
   saved (on_send_clicked example_env No No example_opted_in) = [] \<and>
   m_Request (on_send_clicked example_env No No example_opted_in) = None"
proof -
  have a: "captureUpload_checked (ui example_opted_in)" by (simp add: example_opted_in_eval)
  have b: "No \<noteq> Yes" by simp
  show ?thesis
    using on_send_clicked_declined [OF a b, of example_env No] a
    by (simp add: example_opted_in_eval)
qed


section \<open>C9: no capture is associated\<close>

text \<open>
  C9. When the descriptor's \<open>replaycrash\<close> converts to 0, or the capture path recorded
  in the configuration does not exist, the constructor hides the capture label, the
  capture-upload box, the capture file name and the preview frame, and leaves
  \<open>m_CaptureFilename\<close> empty.
\<close>

theorem CrashDialog_new_no_capture:
  assumes "toUInt (valueOf crashReportJSON ''replaycrash'') = 0 \<or>
           \<not> file_exists E (CrashReport_LastOpenedCapture cfg)"
  shows
    "m_CaptureFilename (CrashDialog_new E setupUi cfg crashReportJSON) = [] \<and>
     \<not> captureLabel_visible (ui (CrashDialog_new E setupUi cfg crashReportJSON)) \<and>
     \<not> captureUpload_visible (ui (CrashDialog_new E setupUi cfg crashReportJSON)) \<and>
     \<not> captureFilename_visible (ui (CrashDialog_new E setupUi cfg crashReportJSON)) \<and>
     \<not> capturePreviewFrame_visible (ui (CrashDialog_new E setupUi cfg crashReportJSON)) \<and>
     m_Thumbnail (CrashDialog_new E setupUi cfg crashReportJSON) = None"
  using assms by (auto simp add: CrashDialog_new_def Let_def setStage_def)

theorem CrashDialog_new_no_capture_witness:
  "toUInt (valueOf (example_json 0) ''replaycrash'') = 0 \<and>
   m_CaptureFilename
     (CrashDialog_new example_env example_setupUi (example_config []) (example_json 0)) = [] \<and>
   \<not> captureUpload_visible
     (ui (CrashDialog_new example_env example_setupUi (example_config []) (example_json 0))) \<and>
   \<not> file_exists example_env
     (CrashReport_LastOpenedCapture
       ((example_config [])\<lparr>CrashReport_LastOpenedCapture := ''/captures/gone.rdc''\<rparr>)) \<and>
   m_CaptureFilename
     (CrashDialog_new example_env example_setupUi
       ((example_config [])\<lparr>CrashReport_LastOpenedCapture := ''/captures/gone.rdc''\<rparr>)
       (example_json 1)) = [] \<and>
   m_CaptureFilename
     (CrashDialog_new example_env example_setupUi (example_config []) (example_json 1)) =
     ''/captures/last.rdc''"
proof -
  have a: "toUInt (valueOf (example_json 0) ''replaycrash'') = 0" by code_simp
  have b: "\<not> file_exists example_env
     (CrashReport_LastOpenedCapture
       ((example_config [])\<lparr>CrashReport_LastOpenedCapture := ''/captures/gone.rdc''\<rparr>))"
    by code_simp
  have c: "m_CaptureFilename
     (CrashDialog_new example_env example_setupUi (example_config []) (example_json 1)) =
     ''/captures/last.rdc''" by code_simp
  show ?thesis
    using CrashDialog_new_no_capture
      [of "example_json 0" example_env "example_config []" example_setupUi]
      CrashDialog_new_no_capture
      [of "example_json 1" example_env
        "(example_config [])\<lparr>CrashReport_LastOpenedCapture := ''/captures/gone.rdc''\<rparr>"
        example_setupUi] a b c
    by simp
qed

section \<open>C10: the email preferences\<close>

text \<open>
  C10. A send that neither question stops stores the state of the remember-email box,
  and stores the email text as the address only if the box is ticked and the text is not
  empty; otherwise the stored address stays. The configuration is saved so and the upload
  begins.
\<close>

theorem on_send_clicked_email_config:
  assumes "captureUpload_checked (ui d) \<longrightarrow> captureAnswer = Yes"
    and "\<not> (\<not> CrashReport_EmailNagged (m_Config d) \<and> email_text (ui d) = [] \<and> emailAnswer = Yes)"
  shows
    "CrashReport_ShouldRememberEmail (m_Config (on_send_clicked E captureAnswer emailAnswer d)) =
       rememberEmail_checked (ui d) \<and>
     CrashReport_EmailAddress (m_Config (on_send_clicked E captureAnswer emailAnswer d)) =
       (if rememberEmail_checked (ui d) \<and> email_text (ui d) \<noteq> [] then email_text (ui d)
        else CrashReport_EmailAddress (m_Config d)) \<and>
     last (saved (on_send_clicked E captureAnswer emailAnswer d)) =
       m_Config (on_send_clicked E captureAnswer emailAnswer d) \<and>
     m_Stage (on_send_clicked E captureAnswer emailAnswer d) = Uploading"
  using assms
  by (auto simp add: on_send_clicked_def save_and_send_def Let_def Save_def sendReport_def
      setStage_def)

theorem on_send_clicked_email_config_witness:
  "CrashReport_EmailAddress (m_Config example_opted_in) = ''old@example.org'' \<and>
   CrashReport_ShouldRememberEmail (m_Config (on_send_clicked example_env Yes No example_opted_in)) \<and>
   CrashReport_EmailAddress (m_Config (on_send_clicked example_env Yes No example_opted_in)) =
     ''new@example.org'' \<and>
   CrashReport_EmailAddress (m_Config (on_send_clicked example_env No No example_dialog)) =
     ''old@example.org''"
proof -
  have a: "captureUpload_checked (ui example_opted_in) \<longrightarrow> Yes = Yes" by simp
  have b: "\<not> (\<not> CrashReport_EmailNagged (m_Config example_opted_in) \<and>
              email_text (ui example_opted_in) = [] \<and> No = Yes)" by simp
  have c: "captureUpload_checked (ui example_dialog) \<longrightarrow> No = Yes" by code_simp
  have d: "\<not> (\<not> CrashReport_EmailNagged (m_Config example_dialog) \<and>
              email_text (ui example_dialog) = [] \<and> No = Yes)" by simp
  have e: "\<not> rememberEmail_checked (ui example_dialog)"
    "CrashReport_EmailAddress (m_Config example_dialog) = ''old@example.org''"
    by code_simp+
  show ?thesis
    using on_send_clicked_email_config [OF a b, of example_env]
      on_send_clicked_email_config [OF c d, of example_env] e
    by (simp add: example_opted_in_eval)
qed

end
